theory Spec2Isabelle
  imports Complex_Main "HOL-Library.Multiset"
begin

section \<open>Python errors\<close>

text \<open>
  The exceptions the modelled functions can raise. A function that can raise returns
  \<open>py_error + 'a\<close>, with \<open>Inl\<close> for the exception.
\<close>

datatype py_error =
  KeyError | ZeroDivisionError | ValueError | IndexError | TypeError | AttributeError | LinAlgError

section \<open>utils.distribute\_work\<close>

text \<open>
  \<^verbatim>\<open>processes = [dict(id=i, capacity=c, load=0) for i, c in enumerate(capacities)]\<close>

  A process is a dictionary with the three fields \<open>id\<close>, \<open>capacity\<close> and \<open>load\<close>.
  Weights and capacities are Python numbers; \<open>/\<close> is true division
  (\<open>from __future__ import division\<close>). They are modelled as exact rationals.
\<close>

record process =
  pid :: nat
  capacity :: rat
  load :: rat

text \<open>
  The key of the \<open>min\<close> call:
  \<^verbatim>\<open>lambda p: ((p['load'] + w)/p['capacity'], 1/p['capacity'], p['id'])\<close>
  Dividing by a zero capacity raises \<open>ZeroDivisionError\<close>.
\<close>

definition minload_key :: "rat \<Rightarrow> process \<Rightarrow> py_error + (rat \<times> rat \<times> nat)" where
  "minload_key w p =
     (if capacity p = 0 then Inl ZeroDivisionError
      else Inr ((load p + w) / capacity p, 1 / capacity p, pid p))"

text \<open>Python compares tuples lexicographically.\<close>

fun tuple_less :: "rat \<times> rat \<times> nat \<Rightarrow> rat \<times> rat \<times> nat \<Rightarrow> bool" where
  "tuple_less (a1, b1, c1) (a2, b2, c2) =
     (a1 < a2 \<or> (a1 = a2 \<and> (b1 < b2 \<or> (b1 = b2 \<and> c1 < c2))))"

text \<open>
  \<open>min(processes, key=...)\<close>: the keys are evaluated from left to right, the first
  element whose key is smallest wins, and an empty list raises \<open>ValueError\<close>.
  \<open>min_scan\<close> is the scan over the rest of the list: it carries the position and key
  of the best element so far and the position of the next element. The result is the
  position of the chosen element (\<open>min\<close> returns the object itself).
\<close>

fun min_scan :: "rat \<Rightarrow> nat \<Rightarrow> (rat \<times> rat \<times> nat) \<Rightarrow> nat \<Rightarrow> process list \<Rightarrow> py_error + nat" where
  "min_scan w best bk k [] = Inr best"
| "min_scan w best bk k (p # ps) =
     (case minload_key w p of
        Inl e \<Rightarrow> Inl e
      | Inr pk \<Rightarrow> if tuple_less pk bk then min_scan w k pk (Suc k) ps
                 else min_scan w best bk (Suc k) ps)"

definition py_min :: "rat \<Rightarrow> process list \<Rightarrow> py_error + nat" where
  "py_min w ps =
     (case ps of
        [] \<Rightarrow> Inl ValueError
      | p # ps' \<Rightarrow> (case minload_key w p of
                     Inl e \<Rightarrow> Inl e
                   | Inr pk \<Rightarrow> min_scan w 0 pk 1 ps'))"

text \<open>
  \<open>processes.index(minload)\<close>: the position of the first element equal to
  \<open>minload\<close> (dictionaries compare by value); \<open>ValueError\<close> when there is none.
\<close>

fun index_from :: "nat \<Rightarrow> 'a list \<Rightarrow> 'a \<Rightarrow> py_error + nat" where
  "index_from k [] x = Inl ValueError"
| "index_from k (y # ys) x = (if y = x then Inr k else index_from (Suc k) ys x)"

definition py_index :: "'a list \<Rightarrow> 'a \<Rightarrow> py_error + nat" where
  "py_index xs x = index_from 0 xs x"

text \<open>
  The loop body and the loop:
  \<^verbatim>\<open>
  for id in sids:
      w = weights[id]
      minload = min(processes, key=...)
      i = processes.index(minload)
      minload['load'] += weights[id]
      dist[i].append(id)
  \<close>
  The state is the pair \<open>(processes, dists)\<close> (\<open>dists\<close> stands for the source's
  \<open>dist\<close>). \<open>minload\<close> is the object at position \<open>m\<close> of \<open>processes\<close>, so the
  load is updated there; the unit is appended to \<open>dist[i]\<close>, which raises
  \<open>IndexError\<close> when \<open>dist\<close> has no position \<open>i\<close>.
\<close>

fun assign_loop ::
  "('a \<rightharpoonup> rat) \<Rightarrow> 'a list \<Rightarrow> process list \<times> 'a list list \<Rightarrow> py_error + (process list \<times> 'a list list)"
where
  "assign_loop weights [] st = Inr st"
| "assign_loop weights (u # sids) (processes, dists) =
     (case weights u of
        None \<Rightarrow> Inl KeyError
      | Some w \<Rightarrow>
         (case py_min w processes of
            Inl e \<Rightarrow> Inl e
          | Inr m \<Rightarrow>
             (case py_index processes (processes ! m) of
                Inl e \<Rightarrow> Inl e
              | Inr i \<Rightarrow>
                 (let processes' = processes[m := (processes ! m)\<lparr>load := load (processes ! m) + w\<rparr>]
                  in if i < length dists
                     then assign_loop weights sids (processes', dists[i := dists ! i @ [u]])
                     else Inl IndexError))))"

text \<open>
  \<open>sorted(ids, key=lambda x: weights[x], reverse=True)\<close>: a stable sort by
  descending weight (Python keeps the input order of elements with equal keys, also
  with \<open>reverse=True\<close>). The key function is called on every id first, so an id that
  \<open>weights\<close> does not hold raises \<open>KeyError\<close>. The sort itself is the library's;
  it is modelled by the stable insertion sort \<open>sort_key\<close> on the negated weight.
\<close>

definition sorted_ids :: "('a \<rightharpoonup> rat) \<Rightarrow> 'a list \<Rightarrow> py_error + 'a list" where
  "sorted_ids weights ids =
     (if list_ex (\<lambda>x. weights x = None) ids then Inl KeyError
      else Inr (sort_key (\<lambda>x. - the (weights x)) ids))"

text \<open>
  \<open>distribute_work(nproc, ids, weights=None, capacities=None)\<close>. \<open>nproc\<close> is a Python
  integer: \<open>[1] * nproc\<close> and \<open>range(nproc)\<close> are empty when it is zero or negative.
\<close>

definition distribute_work ::
  "int \<Rightarrow> 'a list \<Rightarrow> ('a \<rightharpoonup> rat) option \<Rightarrow> rat list option \<Rightarrow> py_error + 'a list list"
where
  "distribute_work nproc ids weights capacities =
     (let weights' = (case weights of
                        None \<Rightarrow> (\<lambda>x. if x \<in> set ids then Some 1 else None)
                      | Some ws \<Rightarrow> ws)
      in case sorted_ids weights' ids of
           Inl e \<Rightarrow> Inl e
         | Inr sids \<Rightarrow>
            (let capacities' = (case capacities of
                                  None \<Rightarrow> replicate (nat nproc) 1
                                | Some cs \<Rightarrow> cs);
                 dists = replicate (nat nproc) [];
                 processes = map (\<lambda>(i, c). \<lparr>pid = i, capacity = c, load = 0\<rparr>)
                                 (enumerate 0 capacities')
             in case assign_loop weights' sids (processes, dists) of
                  Inl e \<Rightarrow> Inl e
                | Inr (processes', dists') \<Rightarrow> Inr dists'))"

subsection \<open>Notions used to state the properties of distribute\_work\<close>

text \<open>The key of a process whose capacity is not zero, as a plain value.\<close>

definition key_of :: "rat \<Rightarrow> process \<Rightarrow> rat \<times> rat \<times> nat" where
  "key_of w p = ((load p + w) / capacity p, 1 / capacity p, pid p)"

text \<open>
  The processes are built by \<open>enumerate\<close>: the \<open>id\<close> of each process is its position.
  The loop only changes loads, so this holds throughout.
\<close>

definition pids_ok :: "process list \<Rightarrow> bool" where
  "pids_ok ps = (map pid ps = [0..<length ps])"

text \<open>The initial process list, the effective weights and the effective capacities
  (the values of \<open>processes\<close>, \<open>weights\<close> and \<open>capacities\<close> after the defaults).\<close>

definition init_processes :: "rat list \<Rightarrow> process list" where
  "init_processes caps = map (\<lambda>(i, c). \<lparr>pid = i, capacity = c, load = 0\<rparr>) (enumerate 0 caps)"

definition eff_weights :: "'a list \<Rightarrow> ('a \<rightharpoonup> rat) option \<Rightarrow> ('a \<rightharpoonup> rat)" where
  "eff_weights ids weights =
     (case weights of None \<Rightarrow> (\<lambda>x. if x \<in> set ids then Some 1 else None) | Some ws \<Rightarrow> ws)"

definition eff_capacities :: "int \<Rightarrow> rat list option \<Rightarrow> rat list" where
  "eff_capacities nproc capacities =
     (case capacities of None \<Rightarrow> replicate (nat nproc) 1 | Some cs \<Rightarrow> cs)"

text \<open>
  A valid configuration: at least one worker, a weight for every unit id when weights
  are given, and one positive capacity per worker when capacities are given.
\<close>

definition valid_config :: "int \<Rightarrow> 'a list \<Rightarrow> ('a \<rightharpoonup> rat) option \<Rightarrow> rat list option \<Rightarrow> bool" where
  "valid_config nproc ids weights capacities \<longleftrightarrow>
     0 < nproc \<and>
     (case weights of None \<Rightarrow> True | Some ws \<Rightarrow> list_all (\<lambda>x. ws x \<noteq> None) ids) \<and>
     (case capacities of None \<Rightarrow> True
      | Some cs \<Rightarrow> int (length cs) = nproc \<and> list_all (\<lambda>c. 0 < c) cs)"

subsection \<open>The reference algorithm of the specification\<close>








text \<open>
  The share of worker \<open>j\<close> when \<open>k\<close> units are dealt out in turn to \<open>n\<close> workers.
\<close>

definition share :: "nat \<Rightarrow> nat \<Rightarrow> nat \<Rightarrow> nat" where
  "share n k j = k div n + (if j < k mod n then 1 else 0)"

section \<open>zscan: the chi-squared fit over a redshift grid\<close>

text \<open>
  Arrays of floating-point numbers are lists of exact rationals: a vector is a list, a
  two-dimensional array the list of its rows, a three-dimensional array a list of
  matrices. Rounding is not modelled. The shapes of the arrays are assumed to fit (numpy
  raises otherwise and nothing is returned): every target has at least one spectrum, the
  flux and weight vectors of a spectrum have one entry per row of its resampling matrix,
  and the template data have one entry per redshift of the local grid.
\<close>

type_synonym vec = "rat list"
type_synonym mat = "rat list list"

text \<open>\<open>np.dot\<close> of two vectors, of a matrix and a vector, and of two matrices.\<close>

definition dot :: "vec \<Rightarrow> vec \<Rightarrow> rat" where
  "dot xs ys = sum_list (map2 (*) xs ys)"

definition matvec :: "mat \<Rightarrow> vec \<Rightarrow> vec" where
  "matvec A x = map (\<lambda>row. dot row x) A"

definition matmul :: "mat \<Rightarrow> mat \<Rightarrow> mat" where
  "matmul A B = map (\<lambda>row. map (dot row) (transpose B)) A"

text \<open>\<open>weights[:,None] * Tb\<close>: every row of \<open>Tb\<close> scaled by its weight.\<close>

definition scale_rows :: "vec \<Rightarrow> mat \<Rightarrow> mat" where
  "scale_rows weights Tb = map2 (\<lambda>w row. map ((*) w) row) weights Tb"

text \<open>The sentinel chi-squared \<open>9e99\<close>.\<close>

definition sentinel :: rat where
  "sentinel = 9 * 10 ^ 99"

subsection \<open>Data\<close>

text \<open>
  A \<open>Spectrum\<close> has the observed flux, the inverse variances, the sparse resampling
  matrix \<open>Rcsr\<close> (here by rows) and the key \<open>wavehash\<close> of its wavelength grid. A
  \<open>Target\<close> has an id and its spectra (the fields \<open>id\<close> and \<open>spectra\<close>).
\<close>

record spectrum =
  flux :: vec
  ivar :: vec
  Rcsr :: mat
  wavehash :: nat

record target =
  target_id :: nat
  target_spectra :: "spectrum list"

text \<open>
  Modelled from the spec: the classes \<open>Template\<close> and \<open>DistTemplate\<close> are not among the
  sources. The fields are the ones \<open>zscan\<close> reads: of the template its type tag, its
  full type, its redshift grid, its wavelengths, its flux (one row per basis vector,
  \<open>template.flux\<close>) and the number of basis vectors; of the local slice its redshifts, its
  data (for every local redshift a dictionary from wavelength-grid key to the
  interpolated basis matrix, here a function) and its index; and whether \<open>comm\<close> is
  \<open>None\<close>.
\<close>

record template =
  template_type :: string
  full_type :: string
  redshifts :: vec
  wave :: vec
  template_flux :: mat
  nbasis :: nat

record local_slice =
  local_redshifts :: vec
  local_data :: "(nat \<Rightarrow> mat) list"
  local_index :: nat

record dist_template =
  template :: template
  local :: local_slice
  comm_is_None :: bool

text \<open>
  \<open>tdata\<close> as \<open>calc_zchi2_v3\<close> passes it on: for the GPU one stacked array per key
  (\<open>cp.array([tdata[key] for tdata in dtemplate.local.data])\<close>), for the CPU the list
  \<open>dtemplate.local.data\<close> as it is.
\<close>

datatype tdata = Stacked "nat \<Rightarrow> mat list" | PerRedshift "(nat \<Rightarrow> mat) list"

subsection \<open>Loops that can raise\<close>

text \<open>
  A \<open>for\<close> loop whose body computes one row of the result or raises: the first
  exception ends the loop.
\<close>

fun py_for :: "('a \<Rightarrow> py_error + 'b) \<Rightarrow> 'a list \<Rightarrow> py_error + 'b list" where
  "py_for f [] = Inr []"
| "py_for f (x # xs) =
     (case f x of
        Inl e \<Rightarrow> Inl e
      | Inr y \<Rightarrow> (case py_for f xs of Inl e \<Rightarrow> Inl e | Inr ys \<Rightarrow> Inr (y # ys)))"

subsection \<open>The helper functions\<close>

text \<open>
  \<^verbatim>\<open>
  weights = np.concatenate([ s.ivar for s in spectra ])
  flux = np.concatenate([ s.flux for s in spectra ])
  wflux = weights * flux
  return (weights, flux, wflux)
  \<close>
\<close>

definition spectral_data :: "spectrum list \<Rightarrow> vec \<times> vec \<times> vec" where
  "spectral_data spectra =
     (let weights = concat (map ivar spectra);
          fluxes = concat (map flux spectra);
          wflux = map2 (*) weights fluxes
      in (weights, fluxes, wflux))"

text \<open>
  \<open>dot_product_sparse_one\<close>: \<open>np.vstack\<close> of \<open>s.Rcsr.dot(tdata[key])\<close> over the
  spectra.
\<close>

definition dot_product_sparse_one :: "spectrum list \<Rightarrow> (nat \<Rightarrow> mat) \<Rightarrow> mat" where
  "dot_product_sparse_one spectra td =
     concat (map (\<lambda>s. matmul (Rcsr s) (td (wavehash s))) spectra)"

text \<open>
  \<open>cp.hstack\<close> of three-dimensional arrays joins them along the second axis: for every
  template the blocks of all spectra, one below the other.
\<close>

definition cp_hstack :: "mat list list \<Rightarrow> mat list" where
  "cp_hstack As = map concat (transpose As)"

text \<open>
  The kernel \<open>batch_dot_product_sparse\<close>. The arrays on the device are flat, in row-major
  order. The thread with index \<open>i\<close> computes the entry \<open>tb[i]\<close>:
  \<^verbatim>\<open>
  if (i >= ncols*nbasis*nt) return;
  int ibatch = i % nbasis;
  int icol = (i % (nbasis*ncols)) / nbasis;
  int it = i / (nbasis*ncols);
  int t_start = it*nbasis*ncols;
  int row = icol;
  for (int j = Rcsr_indptr[row]; j < Rcsr_indptr[row+1]; j++) {
      col = Rcsr_cols[j];
      x += Rcsr_values[j] * tdata[t_start+nbasis*col+ibatch];
  }
  tb[i] = x;
  \<close>
  \<open>Rcsr\<close> is kept by rows here; its stored entries are the entries that are not zero.
  The first entry of template \<open>it\<close> is looked up at \<open>it*nbasis*ncols\<close>, where \<open>ncols\<close>
  is the number of rows of \<open>Rcsr\<close>. A read past the end of \<open>tdata\<close> is undefined on
  the device and unspecified here (\<open>!\<close>).
\<close>

definition flat :: "mat list \<Rightarrow> vec" where
  "flat a = concat (concat a)"

definition batch_dot_product_sparse_kernel :: "mat \<Rightarrow> vec \<Rightarrow> nat \<Rightarrow> nat \<Rightarrow> nat \<Rightarrow> rat" where
  "batch_dot_product_sparse_kernel R tdata ncols nb i =
     (let ibatch = i mod nb;
          icol = (i mod (nb * ncols)) div nb;
          it = i div (nb * ncols);
          t_start = it * nb * ncols;
          row = R ! icol
      in sum_list (map (\<lambda>col. row ! col * tdata ! (t_start + nb * col + ibatch))
                       (filter (\<lambda>col. row ! col \<noteq> 0) [0..<length row])))"

text \<open>
  \<open>batch_dot_product_sparse_gpu\<close> launches the kernel once per spectrum:
  \<^verbatim>\<open>
  ncols = cp.int32(s.Rcsr.shape[0])
  nbasis = cp.int32(tdata[key].shape[2])
  nt = cp.int32(tdata[key].shape[0])
  n = tdata[key].size
  blocks = (n+block_size-1)//block_size
  curr_tb = cp.empty((nt, ncols, nbasis))
  \<close>
  with \<open>blocks\<close> blocks of \<open>block_size\<close> threads, and joins the results with
  \<open>cp.hstack\<close>. The entry \<open>curr_tb[it][icol][ibatch]\<close> is \<open>tb[i]\<close> at
  \<open>i = (it*ncols + icol)*nbasis + ibatch\<close>, which is below \<open>ncols*nbasis*nt\<close>; the
  threads above it write nothing. The number of threads comes from the size of
  \<open>tdata[key]\<close>, not from the size of the result: an entry whose thread is not launched
  keeps what \<open>cp.empty\<close> left there, which is unspecified. The kernel does not use
  its argument \<open>nrows\<close>. The width \<open>shape[2]\<close> of an array without entries is not kept
  by the lists and is taken as \<open>0\<close>.
\<close>

definition block_size :: nat where
  "block_size = 512"

definition shape2 :: "mat list \<Rightarrow> nat" where
  "shape2 a = (case a of [] \<Rightarrow> 0 | m # _ \<Rightarrow> (case m of [] \<Rightarrow> 0 | r # _ \<Rightarrow> length r))"

definition batch_dot_product_sparse_launch :: "mat \<Rightarrow> mat list \<Rightarrow> mat list" where
  "batch_dot_product_sparse_launch R a =
     (let ncols = length R;
          nb = shape2 a;
          nt = length a;
          n = length (flat a);
          blocks = (n + block_size - 1) div block_size
      in map (\<lambda>it. map (\<lambda>icol. map (\<lambda>ibatch.
                (let i = (it * ncols + icol) * nb + ibatch
                 in if i < blocks * block_size
                    then batch_dot_product_sparse_kernel R (flat a) ncols nb i
                    else undefined))
              [0..<nb]) [0..<ncols]) [0..<nt])"

definition batch_dot_product_sparse_gpu :: "spectrum list \<Rightarrow> (nat \<Rightarrow> mat list) \<Rightarrow> mat list" where
  "batch_dot_product_sparse_gpu spectra td =
     cp_hstack (map (\<lambda>s. batch_dot_product_sparse_launch (Rcsr s) (td (wavehash s))) spectra)"

text \<open>
  \<open>batch_dot_product_sparse(spectra, tdata, nz, use_gpu)\<close>: the GPU version, or the loop
  over the \<open>nz\<close> templates and the spectra on the host.
\<close>

definition batch_dot_product_sparse ::
  "spectrum list \<Rightarrow> (nat \<Rightarrow> mat list) \<Rightarrow> nat \<Rightarrow> bool \<Rightarrow> mat list"
where
  "batch_dot_product_sparse spectra td nz use_gpu =
     (if use_gpu then batch_dot_product_sparse_gpu spectra td
      else map (\<lambda>i. concat (map (\<lambda>s. matmul (Rcsr s) (td (wavehash s) ! i)) spectra)) [0..<nz])"

text \<open>
  \<open>calc_batch_dot_product_3d3d_gpu(a, b, transpose_a)\<close>. For template \<open>t\<close> the kernel
  \<open>batch_dot_product_3d3d\<close> adds into \<open>M[t][b_row][a_row]\<close> the products
  \<open>a[t][j][a_row] * b[t][j][b_row]\<close> over all \<open>j\<close> when \<open>transpose_a\<close> is set, and
  \<open>a[t][a_row][j] * b[t][j][b_row]\<close> otherwise (\<open>a_row = r % nbasis\<close> and
  \<open>b_row = r / nbasis\<close> for the position \<open>r\<close> in \<open>M[t]\<close>). The partial sums of the
  parallel threads, joined by \<open>atomicAdd\<close>, are one exact sum here.
\<close>

definition calc_batch_dot_product_3d3d_gpu :: "mat list \<Rightarrow> mat list \<Rightarrow> bool \<Rightarrow> mat list" where
  "calc_batch_dot_product_3d3d_gpu a b transpose_a =
     map2 (\<lambda>ma mb. map (\<lambda>bcol. map (\<lambda>arow. dot arow bcol)
                                    (if transpose_a then transpose ma else ma))
                       (transpose mb)) a b"

text \<open>
  \<open>calc_batch_dot_product_3d2d\<close>: \<open>model[i] = Tbs[i].dot(zc[i])\<close> for every template,
  by the kernel \<open>batch_dot_product_3d2d\<close> on the GPU and by \<open>Tbs @ zc[:, :, None]\<close> on the
  host.
\<close>

definition calc_batch_dot_product_3d2d_gpu :: "mat list \<Rightarrow> vec list \<Rightarrow> vec list" where
  "calc_batch_dot_product_3d2d_gpu Tbs zc = map2 matvec Tbs zc"

definition calc_batch_dot_product_3d2d :: "mat list \<Rightarrow> vec list \<Rightarrow> bool \<Rightarrow> vec list" where
  "calc_batch_dot_product_3d2d Tbs zc use_gpu =
     (if use_gpu then calc_batch_dot_product_3d2d_gpu Tbs zc
      else map2 (\<lambda>Tb c. matvec Tb c) Tbs zc)"

subsection \<open>The solvers\<close>

text \<open>
  \<open>np.linalg.solve\<close> and \<open>cp.linalg.solve\<close> are library routines. They are parameters
  of the model: the host solver \<open>np_solve\<close> returns the solution of one system or raises
  (\<open>LinAlgError\<close> for a singular matrix), the device solver \<open>cp_solve\<close> takes all systems
  at once. The theorems hold for all solvers with the properties they name.

  For the closed examples the solvers are instantiated: \<open>np_linalg_solve\<close> is exact
  elimination on the rows \<open>[M | y]\<close>, raising \<open>LinAlgError\<close> when no pivot is left.
  \<open>cp_linalg_solve\<close> solves every system of the batch in the same way and raises
  nothing; what the device returns for a singular system are not numbers that a rational
  can stand for, and the stand-in has zeros there.
\<close>

fun gauss :: "nat \<Rightarrow> rat list list \<Rightarrow> rat list option" where
  "gauss 0 rows = Some []"
| "gauss (Suc n) rows =
     (case filter (\<lambda>r. hd r \<noteq> 0) rows of
        [] \<Rightarrow> None
      | p # _ \<Rightarrow>
         (case gauss n (map (\<lambda>r. map2 (\<lambda>x y. x - (hd r / hd p) * y) (tl r) (tl p))
                            (remove1 p rows)) of
            None \<Rightarrow> None
          | Some xs \<Rightarrow> Some ((last p - dot (butlast (tl p)) xs) / hd p # xs)))"

definition np_linalg_solve :: "mat \<Rightarrow> vec \<Rightarrow> py_error + vec" where
  "np_linalg_solve M y =
     (case gauss (length M) (map2 (\<lambda>row b. row @ [b]) M y) of
        None \<Rightarrow> Inl LinAlgError
      | Some x \<Rightarrow> Inr x)"

definition cp_linalg_solve :: "mat list \<Rightarrow> vec list \<Rightarrow> py_error + vec list" where
  "cp_linalg_solve Ms ys =
     Inr (map2 (\<lambda>M y. case np_linalg_solve M y of Inr c \<Rightarrow> c | Inl e \<Rightarrow> map (\<lambda>b. 0) y) Ms ys)"

text \<open>
  \<open>linalg_solve_batch(all_M, all_y, use_gpu)\<close> returns the solutions and the array
  \<open>iserr\<close>. On the GPU all systems are solved in one call and \<open>iserr\<close> stays all
  \<open>False\<close>; on the host every system is solved in turn, and a \<open>LinAlgError\<close> is caught:
  the coefficients stay zero and \<open>iserr[i]\<close> is set.
\<close>

definition linalg_solve_one :: "(mat \<Rightarrow> vec \<Rightarrow> py_error + vec) \<Rightarrow> nat \<Rightarrow> mat \<times> vec \<Rightarrow> py_error + (vec \<times> bool)" where
  "linalg_solve_one np_solve nb My =
     (case np_solve (fst My) (snd My) of
        Inl e \<Rightarrow> if e = LinAlgError then Inr (replicate nb 0, True) else Inl e
      | Inr c \<Rightarrow> Inr (c, False))"

definition linalg_solve_batch ::
  "(mat \<Rightarrow> vec \<Rightarrow> py_error + vec) \<Rightarrow> (mat list \<Rightarrow> vec list \<Rightarrow> py_error + vec list) \<Rightarrow>
   mat list \<Rightarrow> vec list \<Rightarrow> bool \<Rightarrow> py_error + (vec list \<times> bool list)"
where
  "linalg_solve_batch np_solve cp_solve all_M all_y use_gpu =
     (let nz = length all_M;
          nb = (case all_M of [] \<Rightarrow> 0 | M # Ms \<Rightarrow> length M)
      in if use_gpu then
           (case cp_solve all_M all_y of
              Inl e \<Rightarrow> Inl e
            | Inr zcoeff \<Rightarrow> Inr (zcoeff, replicate nz False))
         else
           (case py_for (linalg_solve_one np_solve nb) (zip all_M all_y) of
              Inl e \<Rightarrow> Inl e
            | Inr rows \<Rightarrow> Inr (map fst rows, map snd rows)))"

subsection \<open>calc\_zchi2\_batch\_v3\<close>

text \<open>
  The body of the host loop, for the template at position \<open>i\<close>:
  \<^verbatim>\<open>
  Tb = dot_product_sparse_one(spectra, tdata[i])
  M = Tb.T.dot(np.multiply(weights[:,None], Tb))
  y = Tb.T.dot(wflux)
  try:
      zcoeff[i,:] = np.linalg.solve(M, y)
  except np.linalg.LinAlgError:
      zchi2[i] = 9e99
      continue
  model = Tb.dot(zcoeff[i,:])
  zchi2[i] = np.dot( (flux - model)**2, weights )
  \<close>
  \<open>zcoeff\<close> starts as zeros, so a redshift whose solve raised \<open>LinAlgError\<close> keeps the
  zero coefficients. Any other exception is not caught.
\<close>

definition normal_M :: "vec \<Rightarrow> mat \<Rightarrow> mat" where
  "normal_M weights Tb = matmul (transpose Tb) (scale_rows weights Tb)"

definition normal_y :: "vec \<Rightarrow> mat \<Rightarrow> vec" where
  "normal_y wflux Tb = matvec (transpose Tb) wflux"

definition chi2_of :: "vec \<Rightarrow> vec \<Rightarrow> mat \<Rightarrow> vec \<Rightarrow> rat" where
  "chi2_of weights fluxes Tb c =
     dot (map (\<lambda>x. x ^ 2) (map2 (-) fluxes (matvec Tb c))) weights"

definition zchi2_host_step ::
  "(mat \<Rightarrow> vec \<Rightarrow> py_error + vec) \<Rightarrow> spectrum list \<Rightarrow> (nat \<Rightarrow> mat) list \<Rightarrow>
   vec \<Rightarrow> vec \<Rightarrow> vec \<Rightarrow> nat \<Rightarrow> nat \<Rightarrow> py_error + (rat \<times> vec)"
where
  "zchi2_host_step np_solve spectra td weights fluxes wflux nb i =
     (if length td \<le> i then Inl IndexError
      else
        (let Tb = dot_product_sparse_one spectra (td ! i);
             M = normal_M weights Tb;
             y = normal_y wflux Tb
         in case np_solve M y of
              Inl e \<Rightarrow> if e = LinAlgError then Inr (sentinel, replicate nb 0) else Inl e
            | Inr c \<Rightarrow> Inr (chi2_of weights fluxes Tb c, c)))"

text \<open>
  \<open>calc_zchi2_batch_v3(spectra, tdata, weights, flux, wflux, nz, nbasis, use_gpu)\<close>.
  The GPU branch:
  \<^verbatim>\<open>
  Tbs = batch_dot_product_sparse(spectra, tdata, nz, use_gpu)
  all_M = calc_batch_dot_product_3d3d_gpu(Tbs, (weights[None, :, None] * Tbs), transpose_a=True)
  all_y = (Tbs.swapaxes(-2, -1) @ wflux)
  zcoeff = cp.linalg.solve(all_M, all_y)
  model = calc_batch_dot_product_3d2d(Tbs, zcoeff, use_gpu)
  zchi2[:] = (((flux - model)*(flux-model)) @ weights).get()
  zcoeff = zcoeff.get()
  \<close>
  There is no \<open>try\<close> in this branch (the source notes that \<open>cupy\<close>'s solver throws no
  error). A \<open>tdata\<close> of the other branch's form is a \<open>TypeError\<close>.
\<close>

definition calc_zchi2_batch_v3 ::
  "(mat \<Rightarrow> vec \<Rightarrow> py_error + vec) \<Rightarrow> (mat list \<Rightarrow> vec list \<Rightarrow> py_error + vec list) \<Rightarrow>
   spectrum list \<Rightarrow> tdata \<Rightarrow> vec \<Rightarrow> vec \<Rightarrow> vec \<Rightarrow> nat \<Rightarrow> nat \<Rightarrow> bool \<Rightarrow>
   py_error + (vec \<times> vec list)"
where
  "calc_zchi2_batch_v3 np_solve cp_solve spectra tdata weights fluxes wflux nz nb use_gpu =
     (if use_gpu then
        (case tdata of
           PerRedshift td \<Rightarrow> Inl TypeError
         | Stacked td \<Rightarrow>
            (let Tbs = batch_dot_product_sparse spectra td nz use_gpu;
                 all_M = calc_batch_dot_product_3d3d_gpu Tbs (map (scale_rows weights) Tbs) True;
                 all_y = map (\<lambda>Tb. matvec (transpose Tb) wflux) Tbs
             in case cp_solve all_M all_y of
                  Inl e \<Rightarrow> Inl e
                | Inr zcoeff \<Rightarrow>
                   (let model = calc_batch_dot_product_3d2d Tbs zcoeff use_gpu;
                        zchi2 = map (\<lambda>m. dot (map2 (\<lambda>f x. (f - x) * (f - x)) fluxes m) weights)
                                    model
                    in Inr (zchi2, zcoeff))))
      else
        (case tdata of
           Stacked td \<Rightarrow> Inl TypeError
         | PerRedshift td \<Rightarrow>
            (case py_for (zchi2_host_step np_solve spectra td weights fluxes wflux nb) [0..<nz] of
               Inl e \<Rightarrow> Inl e
             | Inr rows \<Rightarrow> Inr (map fst rows, map snd rows))))"

subsection \<open>calc\_zchi2\_v3\<close>

text \<open>
  The [OII] penalty of one target:
  \<^verbatim>\<open>
  isOII = (3724 <= dtemplate.template.wave) & (dtemplate.template.wave <= 3733)
  OIItemplate = dtemplate.template.flux[:,isOII].T
  ...
  OIIflux = np.sum(zcoeff[j] @ OIItemplate.T, axis=1)
  zchi2penalty[j][OIIflux < 0] = -OIIflux[OIIflux < 0]
  \<close>
\<close>

definition isOII :: "template \<Rightarrow> bool list" where
  "isOII t = map (\<lambda>w. 3724 \<le> w \<and> w \<le> 3733) (wave t)"

definition OIItemplate :: "template \<Rightarrow> mat" where
  "OIItemplate t =
     transpose (map (\<lambda>row. map snd (filter fst (zip (isOII t) row))) (template_flux t))"

definition OIIflux :: "template \<Rightarrow> vec list \<Rightarrow> vec" where
  "OIIflux t zcoeff_j = map sum_list (matmul zcoeff_j (transpose (OIItemplate t)))"

definition OII_penalty :: "template \<Rightarrow> vec list \<Rightarrow> vec" where
  "OII_penalty t zcoeff_j = map (\<lambda>f. if f < 0 then - f else 0) (OIIflux t zcoeff_j)"

text \<open>
  The body of the loop over the targets. \<open>progress\<close> is the queue, as the number of
  items put on it so far, or \<open>None\<close> when no queue was passed; \<open>progress.put(1)\<close> on
  \<open>None\<close> raises \<open>AttributeError\<close>.
  \<^verbatim>\<open>
  (weights, flux, wflux) = spectral_data(target_data[j].spectra)
  if np.sum(weights) == 0:
      zchi2[j,:] = 9e99
      continue
  (zchi2[j,:], zcoeff[j,:,:]) = calc_zchi2_batch_v3(target_data[j].spectra, tdata,
      weights, flux, wflux, nz, nbasis, use_gpu)
  if dtemplate.template.template_type == 'GALAXY':
      (the penalty)
  if dtemplate.comm is None:
      progress.put(1)
  \<close>
  The three arrays start as zeros, so the rows that are not written stay zero.
\<close>

definition calc_zchi2_v3_target ::
  "(mat \<Rightarrow> vec \<Rightarrow> py_error + vec) \<Rightarrow> (mat list \<Rightarrow> vec list \<Rightarrow> py_error + vec list) \<Rightarrow>
   dist_template \<Rightarrow> tdata \<Rightarrow> bool \<Rightarrow> nat option \<Rightarrow> target \<Rightarrow>
   py_error + ((vec \<times> vec list \<times> vec) \<times> nat option)"
where
  "calc_zchi2_v3_target np_solve cp_solve dtemplate tdata use_gpu progress tg =
     (let nz = length (local_redshifts (local dtemplate));
          nb = nbasis (template dtemplate)
      in case spectral_data (target_spectra tg) of
           (weights, fluxes, wflux) \<Rightarrow>
             if sum_list weights = 0
             then Inr ((replicate nz sentinel, replicate nz (replicate nb 0), replicate nz 0),
                       progress)
             else
               (case calc_zchi2_batch_v3 np_solve cp_solve (target_spectra tg) tdata
                       weights fluxes wflux nz nb use_gpu of
                  Inl e \<Rightarrow> Inl e
                | Inr (zchi2_j, zcoeff_j) \<Rightarrow>
                   (let penalty_j =
                          (if template_type (template dtemplate) = ''GALAXY''
                           then OII_penalty (template dtemplate) zcoeff_j
                           else replicate nz 0)
                    in if comm_is_None dtemplate
                       then (case progress of
                               None \<Rightarrow> Inl AttributeError
                             | Some n \<Rightarrow> Inr ((zchi2_j, zcoeff_j, penalty_j), Some (Suc n)))
                       else Inr ((zchi2_j, zcoeff_j, penalty_j), progress))))"

text \<open>
  The loop \<open>for j in range(ntargets)\<close>: \<open>target_data[j]\<close> raises \<open>IndexError\<close> when
  there are fewer targets than target ids. The state is the queue.
\<close>

fun target_loop ::
  "(nat option \<Rightarrow> target \<Rightarrow> py_error + ((vec \<times> vec list \<times> vec) \<times> nat option)) \<Rightarrow>
   target list \<Rightarrow> nat list \<Rightarrow> nat option \<Rightarrow>
   py_error + ((vec \<times> vec list \<times> vec) list \<times> nat option)"
where
  "target_loop body target_data [] progress = Inr ([], progress)"
| "target_loop body target_data (j # js) progress =
     (if length target_data \<le> j then Inl IndexError
      else
        (case body progress (target_data ! j) of
           Inl e \<Rightarrow> Inl e
         | Inr (row, progress') \<Rightarrow>
            (case target_loop body target_data js progress' of
               Inl e \<Rightarrow> Inl e
             | Inr (rows, progress'') \<Rightarrow> Inr (row # rows, progress''))))"

text \<open>
  \<open>calc_zchi2_v3(target_ids, target_data, dtemplate, progress, use_gpu)\<close> returns
  \<open>(zchi2, zcoeff, zchi2penalty)\<close>, one row per target id; the model returns the queue
  with them. For the GPU, \<open>dtemplate.local.data[0].keys()\<close> raises \<open>IndexError\<close> when
  the local data are empty.
\<close>

definition calc_zchi2_v3 ::
  "(mat \<Rightarrow> vec \<Rightarrow> py_error + vec) \<Rightarrow> (mat list \<Rightarrow> vec list \<Rightarrow> py_error + vec list) \<Rightarrow>
   'i list \<Rightarrow> target list \<Rightarrow> dist_template \<Rightarrow> nat option \<Rightarrow> bool \<Rightarrow>
   py_error + ((vec list \<times> vec list list \<times> vec list) \<times> nat option)"
where
  "calc_zchi2_v3 np_solve cp_solve target_ids target_data dtemplate progress use_gpu =
     (let ntargets = length target_ids;
          td = local_data (local dtemplate)
      in if use_gpu \<and> td = [] then Inl IndexError
         else
           (let tdata = (if use_gpu then Stacked (\<lambda>key. map (\<lambda>d. d key) td)
                         else PerRedshift td)
            in case target_loop (calc_zchi2_v3_target np_solve cp_solve dtemplate tdata use_gpu)
                      target_data [0..<ntargets] progress of
                 Inl e \<Rightarrow> Inl e
               | Inr (rows, progress') \<Rightarrow>
                  Inr ((map fst rows, map (\<lambda>r. fst (snd r)) rows, map (\<lambda>r. snd (snd r)) rows),
                       progress')))"

subsection \<open>Notions used to state the properties of the scan\<close>

text \<open>The \<open>tdata\<close> that \<open>calc_zchi2_v3\<close> builds from the local data.\<close>

definition v3_tdata :: "dist_template \<Rightarrow> bool \<Rightarrow> tdata" where
  "v3_tdata dtemplate use_gpu =
     (if use_gpu then Stacked (\<lambda>key. map (\<lambda>d. d key) (local_data (local dtemplate)))
      else PerRedshift (local_data (local dtemplate)))"

text \<open>The concatenated weights of a target, and the size of the local redshift grid.\<close>

definition target_weights :: "target \<Rightarrow> vec" where
  "target_weights tg = fst (spectral_data (target_spectra tg))"

definition local_nz :: "dist_template \<Rightarrow> nat" where
  "local_nz dtemplate = length (local_redshifts (local dtemplate))"

text \<open>
  The design matrix of the fit at position \<open>i\<close> of the local grid, and its normal
  equations \<open>M c = y\<close>.
\<close>

definition design :: "spectrum list \<Rightarrow> (nat \<Rightarrow> mat) list \<Rightarrow> nat \<Rightarrow> mat" where
  "design spectra td i = dot_product_sparse_one spectra (td ! i)"

definition design_M :: "spectrum list \<Rightarrow> (nat \<Rightarrow> mat) list \<Rightarrow> vec \<Rightarrow> nat \<Rightarrow> mat" where
  "design_M spectra td weights i = normal_M weights (design spectra td i)"

definition design_y :: "spectrum list \<Rightarrow> (nat \<Rightarrow> mat) list \<Rightarrow> vec \<Rightarrow> nat \<Rightarrow> vec" where
  "design_y spectra td wflux i = normal_y wflux (design spectra td i)"

text \<open>
  The shapes that the fit of one target assumes: there is a spectrum, and every design
  matrix has one row per weight and \<open>nb\<close> columns.
\<close>

definition well_shaped :: "spectrum list \<Rightarrow> (nat \<Rightarrow> mat) list \<Rightarrow> vec \<Rightarrow> nat \<Rightarrow> bool" where
  "well_shaped spectra td weights nb \<longleftrightarrow>
     spectra \<noteq> [] \<and> weights \<noteq> [] \<and>
     list_all (\<lambda>i. length (design spectra td i) = length weights \<and>
                    list_all (\<lambda>row. length row = nb) (design spectra td i))
              [0..<length td]"

text \<open>
  The shapes that the kernel \<open>batch_dot_product_sparse\<close> assumes, as the resolution
  matrices of the spectra have them: every \<open>Rcsr\<close> is square and not empty, and the
  template data of its wavelength grid have, at every redshift, one row per column of
  \<open>Rcsr\<close> and \<open>nb\<close> entries per row, with at least one basis vector. Every launch then
  has at least one block.
\<close>

definition device_shaped :: "spectrum list \<Rightarrow> (nat \<Rightarrow> mat) list \<Rightarrow> nat \<Rightarrow> bool" where
  "device_shaped spectra td nb \<longleftrightarrow>
     0 < nb \<and>
     list_all (\<lambda>s. Rcsr s \<noteq> [] \<and>
                    list_all (\<lambda>row. length row = length (Rcsr s)) (Rcsr s) \<and>
                    list_all (\<lambda>d. length (d (wavehash s)) = length (Rcsr s) \<and>
                                   list_all (\<lambda>row. length row = nb) (d (wavehash s))) td)
              spectra"

text \<open>
  The host solver's answers for the systems of one target, and the condition under
  which the two paths are compared: the host solver solves every system, and the device
  solver, given all systems at once, returns the same solutions.
\<close>

definition host_solutions ::
  "(mat \<Rightarrow> vec \<Rightarrow> py_error + vec) \<Rightarrow> spectrum list \<Rightarrow> (nat \<Rightarrow> mat) list \<Rightarrow> vec \<Rightarrow> vec \<Rightarrow>
   (py_error + vec) list"
where
  "host_solutions np_solve spectra td weights wflux =
     map (\<lambda>i. np_solve (design_M spectra td weights i) (design_y spectra td wflux i))
         [0..<length td]"

definition solvers_agree ::
  "(mat \<Rightarrow> vec \<Rightarrow> py_error + vec) \<Rightarrow> (mat list \<Rightarrow> vec list \<Rightarrow> py_error + vec list) \<Rightarrow>
   spectrum list \<Rightarrow> (nat \<Rightarrow> mat) list \<Rightarrow> vec \<Rightarrow> vec \<Rightarrow> bool"
where
  "solvers_agree np_solve cp_solve spectra td weights wflux \<longleftrightarrow>
     list_all (\<lambda>r. \<not> isl r) (host_solutions np_solve spectra td weights wflux) \<and>
     cp_solve (map (design_M spectra td weights) [0..<length td])
              (map (design_y spectra td wflux) [0..<length td])
       = Inr (map projr (host_solutions np_solve spectra td weights wflux))"

text \<open>
  The same, for a target of the scan, together with the shapes of the device: only a
  target with weight is fitted.
\<close>

definition target_fit_agrees ::
  "(mat \<Rightarrow> vec \<Rightarrow> py_error + vec) \<Rightarrow> (mat list \<Rightarrow> vec list \<Rightarrow> py_error + vec list) \<Rightarrow>
   dist_template \<Rightarrow> target \<Rightarrow> bool"
where
  "target_fit_agrees np_solve cp_solve dtemplate tg \<longleftrightarrow>
     (case spectral_data (target_spectra tg) of
        (weights, fluxes, wflux) \<Rightarrow>
          sum_list weights = 0 \<or>
          (well_shaped (target_spectra tg) (local_data (local dtemplate)) weights
             (nbasis (template dtemplate)) \<and>
           device_shaped (target_spectra tg) (local_data (local dtemplate))
             (nbasis (template dtemplate)) \<and>
           solvers_agree np_solve cp_solve (target_spectra tg) (local_data (local dtemplate))
             weights wflux))"



subsection \<open>Small inputs for the closed examples\<close>

text \<open>
  One spectrum of one pixel; one spectrum of two pixels without weight; a template with
  one basis vector whose flux in the [OII] window (the wavelengths 3725 and 3730) sums
  to \<open>-5\<close>; a local grid of two redshifts, at the first of which the interpolated basis
  is zero, so that the normal equations are singular there.
\<close>

definition ex_spectrum :: spectrum where
  "ex_spectrum = \<lparr>flux = [1], ivar = [1], Rcsr = [[1]], wavehash = 0\<rparr>"

definition ex_dark_spectrum :: spectrum where
  "ex_dark_spectrum = \<lparr>flux = [1, 2], ivar = [0, 0], Rcsr = [[1, 0], [0, 1]], wavehash = 0\<rparr>"

definition ex_target :: target where
  "ex_target = \<lparr>target_id = 1, target_spectra = [ex_spectrum]\<rparr>"

definition ex_dark_target :: target where
  "ex_dark_target = \<lparr>target_id = 2, target_spectra = [ex_dark_spectrum]\<rparr>"

definition ex_local_data :: "(nat \<Rightarrow> mat) list" where
  "ex_local_data = [\<lambda>key. [[0]], \<lambda>key. [[2]]]"

definition ex_template :: "string \<Rightarrow> template" where
  "ex_template ty =
     \<lparr>template_type = ty, full_type = ty, redshifts = [0, 1],
      wave = [3700, 3725, 3730, 3800], template_flux = [[1, - 2, - 3, 4]], nbasis = 1\<rparr>"

definition ex_dtemplate :: "string \<Rightarrow> dist_template" where
  "ex_dtemplate ty =
     \<lparr>template = ex_template ty,
      local = \<lparr>local_redshifts = [0, 1], local_data = ex_local_data, local_index = 0\<rparr>,
      comm_is_None = False\<rparr>"

text \<open>The same grid with a basis that is not zero at either redshift.\<close>

definition ex_regular_dtemplate :: "string \<Rightarrow> dist_template" where
  "ex_regular_dtemplate ty =
     \<lparr>template = ex_template ty,
      local = \<lparr>local_redshifts = [0, 1], local_data = [\<lambda>key. [[1]], \<lambda>key. [[2]]],
               local_index = 0\<rparr>,
      comm_is_None = False\<rparr>"

text \<open>
  A spectrum of one pixel whose resampling matrix has two columns, and a grid of two
  redshifts for it.
\<close>

definition ex_wide_spectrum :: spectrum where
  "ex_wide_spectrum = \<lparr>flux = [1], ivar = [1], Rcsr = [[1, 1]], wavehash = 0\<rparr>"

definition ex_wide_target :: target where
  "ex_wide_target = \<lparr>target_id = 3, target_spectra = [ex_wide_spectrum]\<rparr>"

definition ex_wide_dtemplate :: "string \<Rightarrow> dist_template" where
  "ex_wide_dtemplate ty =
     \<lparr>template = ex_template ty,
      local = \<lparr>local_redshifts = [0, 1],
               local_data = [\<lambda>key. [[1], [10]], \<lambda>key. [[100], [1000]]], local_index = 0\<rparr>,
      comm_is_None = False\<rparr>"

subsection \<open>The penalty of the specification\<close>

text \<open>
  In the words of the specification: the basis is restricted to the wavelengths of the
  window 3724--3733, the modelled flux at each wavelength of the window is recomputed
  from the fitted coefficients (the sum over the basis vectors of coefficient times
  basis flux), and these are summed over the window. The penalty is the negated sum
  when the sum is negative, and zero otherwise; it is zero for every template type other
  than \<open>GALAXY\<close>.
\<close>

definition in_OII_window :: "rat \<Rightarrow> bool" where
  "in_OII_window w \<longleftrightarrow> 3724 \<le> w \<and> w \<le> 3733"

definition spec_OIIflux :: "template \<Rightarrow> vec \<Rightarrow> rat" where
  "spec_OIIflux t c =
     sum_list (map (\<lambda>k. sum_list (map (\<lambda>b. c ! b * template_flux t ! b ! k) [0..<length c]))
                   (filter (\<lambda>k. in_OII_window (wave t ! k)) [0..<length (wave t)]))"

definition spec_penalty :: "template \<Rightarrow> vec \<Rightarrow> rat" where
  "spec_penalty t c =
     (if template_type t = ''GALAXY''
      then (if spec_OIIflux t c < 0 then - spec_OIIflux t c else 0)
      else 0)"

section \<open>zscan: merging the results of calc\_zchi2\_targets\<close>

text \<open>
  A Python dictionary with integer keys is an association list in insertion order with
  one entry per key: \<open>d[k] = v\<close> replaces the value of an existing key in place and
  appends a new key.
\<close>

type_synonym 'v dict = "(nat \<times> 'v) list"

fun dict_set :: "nat \<Rightarrow> 'v \<Rightarrow> 'v dict \<Rightarrow> 'v dict" where
  "dict_set k v [] = [(k, v)]"
| "dict_set k v ((k', v') # d) = (if k = k' then (k, v) # d else (k', v') # dict_set k v d)"

definition dict_get :: "'v dict \<Rightarrow> nat \<Rightarrow> 'v option" where
  "dict_get d k = map_of d k"

definition dict_keys :: "'v dict \<Rightarrow> nat list" where
  "dict_keys d = map fst d"

text \<open>
  \<open>calc_zchi2\<close> returns \<open>calc_zchi2_v3(target_ids, target_data, dtemplate, progress,
  use_gpu)\<close> in its first statement; the rest of its body is never reached.
\<close>

definition calc_zchi2 ::
  "(mat \<Rightarrow> vec \<Rightarrow> py_error + vec) \<Rightarrow> (mat list \<Rightarrow> vec list \<Rightarrow> py_error + vec list) \<Rightarrow>
   nat list \<Rightarrow> target list \<Rightarrow> dist_template \<Rightarrow> nat option \<Rightarrow> bool \<Rightarrow>
   py_error + ((vec list \<times> vec list list \<times> vec list) \<times> nat option)"
where
  "calc_zchi2 np_solve cp_solve target_ids target_data dtemplate progress use_gpu =
     calc_zchi2_v3 np_solve cp_solve target_ids target_data dtemplate progress use_gpu"

subsection \<open>The ring of redshift slices\<close>

text \<open>
  The results of one slice are saved by target id and slice index:
  \<^verbatim>\<open>
  for i, tid in enumerate(tids):
      if tid not in zchi2:
          zchi2[tid] = {}
          zcoeff[tid] = {}
          penalty[tid] = {}
      zchi2[tid][t.local.index] = tzchi2[i]
      zcoeff[tid][t.local.index] = tzcoeff[i]
      penalty[tid][t.local.index] = tpenalty[i]
  \<close>
  The three dictionaries are filled in the same way; \<open>store_rows\<close> fills one of them.
  The argument pairs each target id with its row (\<open>zip tids rows\<close>).
\<close>

fun store_rows :: "nat \<Rightarrow> (nat \<times> 'r) list \<Rightarrow> 'r dict dict \<Rightarrow> 'r dict dict" where
  "store_rows p [] d = d"
| "store_rows p ((tid, row) # rest) d =
     store_rows p rest
       (dict_set tid (dict_set p row (case dict_get d tid of None \<Rightarrow> [] | Some m \<Rightarrow> m)) d)"

text \<open>
  Modelled from the spec: the method \<open>DistTemplate.cycle\<close> is not among the sources.
  It rotates the slices among the processes and returns \<open>True\<close> when the rotation has
  made a full circuit. The model takes the list \<open>visits\<close> of the slices that are
  resident in \<open>t.local\<close> at the successive iterations of the loop
  \<^verbatim>\<open>
  while not done:
      tzchi2, tzcoeff, tpenalty = calc_zchi2(targets.local_target_ids(), targets.local(), t, use_gpu=use_gpu)
      (save the results)
      done = t.cycle()
  \<close>
\<close>

fun ring_loop ::
  "(mat \<Rightarrow> vec \<Rightarrow> py_error + vec) \<Rightarrow> (mat list \<Rightarrow> vec list \<Rightarrow> py_error + vec list) \<Rightarrow>
   nat list \<Rightarrow> target list \<Rightarrow> dist_template \<Rightarrow> bool \<Rightarrow> local_slice list \<Rightarrow>
   vec dict dict \<times> vec list dict dict \<times> vec dict dict \<Rightarrow>
   py_error + (vec dict dict \<times> vec list dict dict \<times> vec dict dict)"
where
  "ring_loop np_solve cp_solve tids targets t use_gpu [] st = Inr st"
| "ring_loop np_solve cp_solve tids targets t use_gpu (sl # rest) (zchi2, zcoeff, penalty) =
     (case calc_zchi2 np_solve cp_solve tids targets (t\<lparr>local := sl\<rparr>) None use_gpu of
        Inl e \<Rightarrow> Inl e
      | Inr ((tzchi2, tzcoeff, tpenalty), progress) \<Rightarrow>
         ring_loop np_solve cp_solve tids targets t use_gpu rest
           (store_rows (local_index sl) (zip tids tzchi2) zchi2,
            store_rows (local_index sl) (zip tids tzcoeff) zcoeff,
            store_rows (local_index sl) (zip tids tpenalty) penalty))"

text \<open>
  \<^verbatim>\<open>
  for tid in zchi2.keys():
      zchi2[tid] = np.concatenate([ zchi2[tid][p] for p in sorted(zchi2[tid].keys()) ])
      zcoeff[tid] = np.concatenate([ zcoeff[tid][p] for p in sorted(zcoeff[tid].keys()) ])
      penalty[tid] = np.concatenate([ penalty[tid][p] for p in sorted(penalty[tid].keys()) ])
  \<close>
  Every key of the inner dictionary has a value, so the lookup never fails.
\<close>

definition concat_slices :: "'a list dict \<Rightarrow> 'a list" where
  "concat_slices m =
     concat (map (\<lambda>p. case dict_get m p of None \<Rightarrow> [] | Some r \<Rightarrow> r) (sort (dict_keys m)))"

definition merge_slices :: "'a list dict dict \<Rightarrow> 'a list dict" where
  "merge_slices d = map (\<lambda>(tid, m). (tid, concat_slices m)) d"

text \<open>
  The MPI branch for one template: with no local target the loop is skipped and the
  dictionaries stay empty.
\<close>

definition scan_ring ::
  "(mat \<Rightarrow> vec \<Rightarrow> py_error + vec) \<Rightarrow> (mat list \<Rightarrow> vec list \<Rightarrow> py_error + vec list) \<Rightarrow>
   nat list \<Rightarrow> target list \<Rightarrow> dist_template \<Rightarrow> bool \<Rightarrow> local_slice list \<Rightarrow>
   py_error + (vec dict \<times> vec list dict \<times> vec dict)"
where
  "scan_ring np_solve cp_solve tids targets t use_gpu visits =
     (case ring_loop np_solve cp_solve tids targets t use_gpu
             (if tids = [] then [] else visits) ([], [], []) of
        Inl e \<Rightarrow> Inl e
      | Inr (zchi2, zcoeff, penalty) \<Rightarrow>
         Inr (merge_slices zchi2, merge_slices zcoeff, merge_slices penalty))"

subsection \<open>The pool of processes\<close>

text \<open>
  The results that the processes put on the queue are taken as they come:
  \<^verbatim>\<open>
  for _ in range(len(procs)):
      res = qout.get()
      tids = mpdist[res[0]]
      for j,tid in enumerate(tids):
          zchi2[tid] = res[1][j]
          zcoeff[tid] = res[2][j]
          penalty[tid] = res[3][j]
  \<close>
  The processes and the queues are not modelled: \<open>received\<close> is the list of the results
  in the order of their arrival. Nothing is concatenated.
\<close>

fun assign_rows :: "(nat \<times> 'r) list \<Rightarrow> 'r dict \<Rightarrow> 'r dict" where
  "assign_rows [] d = d"
| "assign_rows ((tid, row) # rest) d = assign_rows rest (dict_set tid row d)"

fun pool_collect ::
  "nat list list \<Rightarrow> (nat \<times> vec list \<times> vec list list \<times> vec list) list \<Rightarrow>
   vec dict \<times> vec list dict \<times> vec dict \<Rightarrow> py_error + (vec dict \<times> vec list dict \<times> vec dict)"
where
  "pool_collect mpdist [] st = Inr st"
| "pool_collect mpdist ((indx, tzchi2, tzcoeff, tpenalty) # rest) (zchi2, zcoeff, penalty) =
     (if length mpdist \<le> indx then Inl IndexError
      else if length tzchi2 < length (mpdist ! indx) \<or> length tzcoeff < length (mpdist ! indx)
              \<or> length tpenalty < length (mpdist ! indx) then Inl IndexError
      else pool_collect mpdist rest
             (assign_rows (zip (mpdist ! indx) tzchi2) zchi2,
              assign_rows (zip (mpdist ! indx) tzcoeff) zcoeff,
              assign_rows (zip (mpdist ! indx) tpenalty) penalty))"

subsection \<open>The returned records\<close>

text \<open>
  \<^verbatim>\<open>
  for tid in sorted(zchi2.keys()):
      results[tid][ft] = dict()
      results[tid][ft]['redshifts'] = t.template.redshifts
      results[tid][ft]['zchi2'] = zchi2[tid]
      results[tid][ft]['penalty'] = penalty[tid]
      results[tid][ft]['zcoeff'] = zcoeff[tid]
  \<close>
  The model returns the records of one template, by target id.
\<close>

record fit_result =
  r_redshifts :: vec
  r_zchi2 :: vec
  r_penalty :: vec
  r_zcoeff :: "vec list"

definition result_of ::
  "dist_template \<Rightarrow> vec dict \<times> vec list dict \<times> vec dict \<Rightarrow> nat \<Rightarrow> py_error + (nat \<times> fit_result)"
where
  "result_of t st tid =
     (case st of (zchi2, zcoeff, penalty) \<Rightarrow>
        (case (dict_get zchi2 tid, dict_get penalty tid, dict_get zcoeff tid) of
           (Some z, Some p, Some c) \<Rightarrow>
             Inr (tid, \<lparr>r_redshifts = redshifts (template t), r_zchi2 = z,
                        r_penalty = p, r_zcoeff = c\<rparr>)
         | _ \<Rightarrow> Inl KeyError))"

definition template_results ::
  "dist_template \<Rightarrow> vec dict \<times> vec list dict \<times> vec dict \<Rightarrow> py_error + fit_result dict"
where
  "template_results t st = py_for (result_of t st) (sort (dict_keys (fst st)))"

subsection \<open>Notions used to state the properties of the merge\<close>

text \<open>The inner dictionary of a target id, empty when the id has none yet.\<close>

definition dict_default :: "'r dict dict \<Rightarrow> nat \<Rightarrow> 'r dict" where
  "dict_default d tid = (case dict_get d tid of None \<Rightarrow> [] | Some m \<Rightarrow> m)"

text \<open>
  The three arrays that \<open>calc_zchi2\<close> returns for one slice (empty if it raises).
\<close>

definition slice_rows ::
  "(mat \<Rightarrow> vec \<Rightarrow> py_error + vec) \<Rightarrow> (mat list \<Rightarrow> vec list \<Rightarrow> py_error + vec list) \<Rightarrow>
   nat list \<Rightarrow> target list \<Rightarrow> dist_template \<Rightarrow> bool \<Rightarrow> local_slice \<Rightarrow>
   vec list \<times> vec list list \<times> vec list"
where
  "slice_rows np_solve cp_solve tids targets t use_gpu sl =
     (case calc_zchi2 np_solve cp_solve tids targets (t\<lparr>local := sl\<rparr>) None use_gpu of
        Inl e \<Rightarrow> ([], [], [])
      | Inr (rows, progress) \<Rightarrow> rows)"

text \<open>The slices in ascending order of their index.\<close>

definition by_index :: "local_slice list \<Rightarrow> local_slice list" where
  "by_index visits = sort_key local_index visits"

text \<open>
  The pairs of target id and row that the pool's results hold for one of the three
  arrays, in the order of arrival.
\<close>

definition pool_pairs ::
  "nat list list \<Rightarrow> ('x \<Rightarrow> 'r list) \<Rightarrow> (nat \<times> 'x) list \<Rightarrow> (nat \<times> 'r) list" where
  "pool_pairs mpdist sel received =
     concat (map (\<lambda>r. zip (mpdist ! fst r) (sel (snd r))) received)"

text \<open>
  The results of the pool fit the distribution: every result names a process, has one
  row per target of that process in each array, and no target belongs to two results.
\<close>

definition pool_fits ::
  "nat list list \<Rightarrow> (nat \<times> vec list \<times> vec list list \<times> vec list) list \<Rightarrow> bool" where
  "pool_fits mpdist received \<longleftrightarrow>
     list_all (\<lambda>r. fst r < length mpdist \<and>
                    length (fst (snd r)) = length (mpdist ! fst r) \<and>
                    length (fst (snd (snd r))) = length (mpdist ! fst r) \<and>
                    length (snd (snd (snd r))) = length (mpdist ! fst r)) received \<and>
     distinct (concat (map (\<lambda>r. mpdist ! fst r) received))"

text \<open>
  Two slices of the grid \<open>[0, 1]\<close> of the example template, one redshift each, and the
  results of two processes of a pool in the order of their arrival.
\<close>

definition ex_slice0 :: local_slice where
  "ex_slice0 = \<lparr>local_redshifts = [0], local_data = [\<lambda>key. [[0]]], local_index = 0\<rparr>"

definition ex_slice1 :: local_slice where
  "ex_slice1 = \<lparr>local_redshifts = [1], local_data = [\<lambda>key. [[2]]], local_index = 1\<rparr>"

definition ex_received :: "(nat \<times> vec list \<times> vec list list \<times> vec list) list" where
  "ex_received = [(1, [[5, 6]], [[[1], [2]]], [[0, 0]]), (0, [[3, 4]], [[[7], [8]]], [[0, 1]])]"

section \<open>Properties of distribute\_work\<close>

lemma minload_key_ok: "capacity p \<noteq> 0 \<Longrightarrow> minload_key w p = Inr (key_of w p)"
  by (simp add: minload_key_def key_of_def)

lemma minload_key_zero: "capacity p = 0 \<Longrightarrow> minload_key w p = Inl ZeroDivisionError"
  by (simp add: minload_key_def)

lemma tuple_less_irrefl: "\<not> tuple_less a a"
  by (cases a) auto

lemma tuple_less_trans: "tuple_less a b \<Longrightarrow> tuple_less b c \<Longrightarrow> tuple_less a c"
  by (cases a; cases b; cases c) auto

lemma tuple_less_asym: "tuple_less a b \<Longrightarrow> \<not> tuple_less b a"
  by (cases a; cases b) auto


lemma min_scan_result:
  assumes "\<forall>p\<in>set ps. capacity p \<noteq> 0"
  shows "\<exists>r. min_scan w best bk k ps = Inr r \<and>
     ((r = best \<and> (\<forall>p\<in>set ps. \<not> tuple_less (key_of w p) bk)) \<or>
      (k \<le> r \<and> r - k < length ps \<and> tuple_less (key_of w (ps ! (r - k))) bk \<and>
        (\<forall>p\<in>set ps. \<not> tuple_less (key_of w p) (key_of w (ps ! (r - k))))))"
  using assms
proof (induction ps arbitrary: best bk k)
  case Nil
  then show ?case by simp
next
  case (Cons p ps)
  have cp: "capacity p \<noteq> 0" and cps: "\<forall>q\<in>set ps. capacity q \<noteq> 0"
    using Cons.prems by simp_all
  have mk: "minload_key w p = Inr (key_of w p)" using cp by (rule minload_key_ok)
  show ?case
  proof (cases "tuple_less (key_of w p) bk")
    case True
    from Cons.IH [OF cps, of k "key_of w p" "Suc k"]
    obtain r where r: "min_scan w k (key_of w p) (Suc k) ps = Inr r"
      and alt: "(r = k \<and> (\<forall>q\<in>set ps. \<not> tuple_less (key_of w q) (key_of w p))) \<or>
        (Suc k \<le> r \<and> r - Suc k < length ps \<and>
         tuple_less (key_of w (ps ! (r - Suc k))) (key_of w p) \<and>
         (\<forall>q\<in>set ps. \<not> tuple_less (key_of w q) (key_of w (ps ! (r - Suc k)))))"
      by blast
    have res: "min_scan w best bk k (p # ps) = Inr r" using mk True r by simp
    from alt show ?thesis
    proof
      assume a: "r = k \<and> (\<forall>q\<in>set ps. \<not> tuple_less (key_of w q) (key_of w p))"
      then have "k \<le> r \<and> r - k < length (p # ps) \<and>
          tuple_less (key_of w ((p # ps) ! (r - k))) bk \<and>
          (\<forall>q\<in>set (p # ps). \<not> tuple_less (key_of w q) (key_of w ((p # ps) ! (r - k))))"
        using True by (simp add: tuple_less_irrefl)
      with res show ?thesis by blast
    next
      assume a: "Suc k \<le> r \<and> r - Suc k < length ps \<and>
         tuple_less (key_of w (ps ! (r - Suc k))) (key_of w p) \<and>
         (\<forall>q\<in>set ps. \<not> tuple_less (key_of w q) (key_of w (ps ! (r - Suc k))))"
      then have idx: "(p # ps) ! (r - k) = ps ! (r - Suc k)"
        by (metis Suc_diff_le diff_Suc_Suc nth_Cons_Suc)
      have lt: "tuple_less (key_of w (ps ! (r - Suc k))) bk"
        using a True tuple_less_trans by blast
      have np: "\<not> tuple_less (key_of w p) (key_of w (ps ! (r - Suc k)))"
        using a tuple_less_asym by blast
      have "k \<le> r \<and> r - k < length (p # ps) \<and>
          tuple_less (key_of w ((p # ps) ! (r - k))) bk \<and>
          (\<forall>q\<in>set (p # ps). \<not> tuple_less (key_of w q) (key_of w ((p # ps) ! (r - k))))"
        using a lt np idx by auto
      with res show ?thesis by blast
    qed
  next
    case False
    from Cons.IH [OF cps, of best bk "Suc k"]
    obtain r where r: "min_scan w best bk (Suc k) ps = Inr r"
      and alt: "(r = best \<and> (\<forall>q\<in>set ps. \<not> tuple_less (key_of w q) bk)) \<or>
        (Suc k \<le> r \<and> r - Suc k < length ps \<and>
         tuple_less (key_of w (ps ! (r - Suc k))) bk \<and>
         (\<forall>q\<in>set ps. \<not> tuple_less (key_of w q) (key_of w (ps ! (r - Suc k)))))"
      by blast
    have res: "min_scan w best bk k (p # ps) = Inr r" using mk False r by simp
    from alt show ?thesis
    proof
      assume a: "r = best \<and> (\<forall>q\<in>set ps. \<not> tuple_less (key_of w q) bk)"
      then have "r = best \<and> (\<forall>q\<in>set (p # ps). \<not> tuple_less (key_of w q) bk)"
        using False by simp
      with res show ?thesis by blast
    next
      assume a: "Suc k \<le> r \<and> r - Suc k < length ps \<and>
         tuple_less (key_of w (ps ! (r - Suc k))) bk \<and>
         (\<forall>q\<in>set ps. \<not> tuple_less (key_of w q) (key_of w (ps ! (r - Suc k))))"
      then have idx: "(p # ps) ! (r - k) = ps ! (r - Suc k)"
        by (metis Suc_diff_le diff_Suc_Suc nth_Cons_Suc)
      have np: "\<not> tuple_less (key_of w p) (key_of w (ps ! (r - Suc k)))"
        using a False tuple_less_trans by blast
      have "k \<le> r \<and> r - k < length (p # ps) \<and>
          tuple_less (key_of w ((p # ps) ! (r - k))) bk \<and>
          (\<forall>q\<in>set (p # ps). \<not> tuple_less (key_of w q) (key_of w ((p # ps) ! (r - k))))"
        using a np idx by auto
      with res show ?thesis by blast
    qed
  qed
qed

lemma py_min_result:
  assumes ne: "ps \<noteq> []" and caps: "\<forall>p\<in>set ps. capacity p \<noteq> 0"
  shows "\<exists>r. py_min w ps = Inr r \<and> r < length ps \<and>
           (\<forall>p\<in>set ps. \<not> tuple_less (key_of w p) (key_of w (ps ! r)))"
proof -
  from ne obtain p ps' where ps: "ps = p # ps'" by (cases ps) auto
  have cp: "capacity p \<noteq> 0" and cps: "\<forall>q\<in>set ps'. capacity q \<noteq> 0"
    using caps ps by simp_all
  have pm: "py_min w ps = min_scan w 0 (key_of w p) 1 ps'"
    using ps cp by (simp add: py_min_def minload_key_ok)
  from min_scan_result [OF cps, of w 0 "key_of w p" 1]
  obtain r where r: "min_scan w 0 (key_of w p) 1 ps' = Inr r"
    and alt: "(r = 0 \<and> (\<forall>q\<in>set ps'. \<not> tuple_less (key_of w q) (key_of w p))) \<or>
      (1 \<le> r \<and> r - 1 < length ps' \<and> tuple_less (key_of w (ps' ! (r - 1))) (key_of w p) \<and>
        (\<forall>q\<in>set ps'. \<not> tuple_less (key_of w q) (key_of w (ps' ! (r - 1)))))"
    by blast
  from alt show ?thesis
  proof
    assume "r = 0 \<and> (\<forall>q\<in>set ps'. \<not> tuple_less (key_of w q) (key_of w p))"
    then show ?thesis using pm r ps by (auto simp: tuple_less_irrefl)
  next
    assume a: "1 \<le> r \<and> r - 1 < length ps' \<and> tuple_less (key_of w (ps' ! (r - 1))) (key_of w p) \<and>
        (\<forall>q\<in>set ps'. \<not> tuple_less (key_of w q) (key_of w (ps' ! (r - 1))))"
    then have idx: "ps ! r = ps' ! (r - 1)" using ps by (cases r) auto
    have "r < length ps" using a ps by auto
    moreover have "\<not> tuple_less (key_of w p) (key_of w (ps' ! (r - 1)))"
      using a tuple_less_asym by blast
    ultimately show ?thesis using pm r ps idx a by auto
  qed
qed

lemma min_scan_zero:
  "\<exists>p\<in>set ps. capacity p = 0 \<Longrightarrow> min_scan w best bk k ps = Inl ZeroDivisionError"
proof (induction ps arbitrary: best bk k)
  case Nil
  then show ?case by simp
next
  case (Cons p ps)
  show ?case
  proof (cases "capacity p = 0")
    case True
    then show ?thesis by (simp add: minload_key_zero)
  next
    case False
    then have "\<exists>q\<in>set ps. capacity q = 0" using Cons.prems by auto
    then show ?thesis using False Cons.IH by (simp add: minload_key_ok)
  qed
qed

lemma py_min_zero:
  "\<exists>p\<in>set ps. capacity p = 0 \<Longrightarrow> py_min w ps = Inl ZeroDivisionError"
proof (cases ps)
  case Nil
  moreover assume "\<exists>p\<in>set ps. capacity p = 0"
  ultimately show ?thesis by simp
next
  case (Cons p ps')
  assume z: "\<exists>p\<in>set ps. capacity p = 0"
  show ?thesis
  proof (cases "capacity p = 0")
    case True
    then show ?thesis using Cons by (simp add: py_min_def minload_key_zero)
  next
    case False
    then have "\<exists>q\<in>set ps'. capacity q = 0" using z Cons by auto
    then show ?thesis using False Cons by (simp add: py_min_def minload_key_ok min_scan_zero)
  qed
qed

lemma py_min_empty: "py_min w [] = Inl ValueError"
  by (simp add: py_min_def)

lemma index_from_nth:
  "m < length xs \<Longrightarrow> \<forall>j<m. xs ! j \<noteq> xs ! m \<Longrightarrow> index_from k xs (xs ! m) = Inr (k + m)"
proof (induction xs arbitrary: k m)
  case Nil
  then show ?case by simp
next
  case (Cons y ys)
  show ?case
  proof (cases m)
    case 0
    then show ?thesis by simp
  next
    case (Suc m')
    have ne: "y \<noteq> ys ! m'" using Cons.prems(2) Suc by auto
    have "m' < length ys" using Cons.prems(1) Suc by simp
    moreover have "\<forall>j<m'. ys ! j \<noteq> ys ! m'" using Cons.prems(2) Suc by auto
    ultimately have "index_from (Suc k) ys (ys ! m') = Inr (Suc k + m')"
      by (rule Cons.IH)
    then show ?thesis using ne Suc by simp
  qed
qed

lemma pids_ok_nth: "pids_ok ps \<Longrightarrow> j < length ps \<Longrightarrow> pid (ps ! j) = j"
  unfolding pids_ok_def by (metis add_0 length_map nth_map nth_upt)

lemma py_index_pids:
  assumes "pids_ok ps" and "m < length ps"
  shows "py_index ps (ps ! m) = Inr m"
proof -
  have "\<forall>j<m. ps ! j \<noteq> ps ! m"
  proof (intro allI impI)
    fix j assume "j < m"
    then have "pid (ps ! j) = j" "pid (ps ! m) = m" "j \<noteq> m"
      using assms pids_ok_nth by auto
    then show "ps ! j \<noteq> ps ! m" by auto
  qed
  then show ?thesis using assms(2) index_from_nth [of m ps 0] by (simp add: py_index_def)
qed

lemma pids_ok_update:
  assumes "pids_ok ps" and "m < length ps"
  shows "pids_ok (ps[m := (ps ! m)\<lparr>load := l\<rparr>])"
proof -
  have "map pid (ps[m := (ps ! m)\<lparr>load := l\<rparr>]) = (map pid ps)[m := pid (ps ! m)]"
    by (simp add: map_update)
  also have "\<dots> = map pid ps"
    using assms(2) by (simp add: list_update_same_conv)
  finally show ?thesis using assms(1) by (simp add: pids_ok_def)
qed

lemma mset_concat_update:
  "i < length ds \<Longrightarrow> mset (concat (ds[i := ds ! i @ [u]])) = mset (concat ds) + {#u#}"
proof (induction ds arbitrary: i)
  case Nil
  then show ?case by simp
next
  case (Cons d ds)
  then show ?case by (cases i) simp_all
qed

lemma assign_loop_mset:
  "assign_loop ws sids (ps, ds) = Inr (ps', ds') \<Longrightarrow>
     mset (concat ds') = mset (concat ds) + mset sids \<and> length ds' = length ds"
proof (induction sids arbitrary: ps ds)
  case Nil
  then show ?case by simp
next
  case (Cons u sids)
  from Cons.prems obtain w m i where
    w: "ws u = Some w" and m: "py_min w ps = Inr m" and i: "py_index ps (ps ! m) = Inr i"
    and il: "i < length ds"
    and rec: "assign_loop ws sids (ps[m := (ps ! m)\<lparr>load := load (ps ! m) + w\<rparr>],
                ds[i := ds ! i @ [u]]) = Inr (ps', ds')"
    by (auto simp: Let_def split: option.splits sum.splits if_splits)
  from Cons.IH [OF rec] il show ?case
    by (simp add: mset_concat_update)
qed

lemma init_length: "length (init_processes caps) = length caps"
  by (simp add: init_processes_def)

lemma init_pids: "pids_ok (init_processes caps)"
proof -
  have "map pid (init_processes caps) = map fst (enumerate 0 caps)"
    by (simp add: init_processes_def case_prod_beta comp_def)
  then show ?thesis by (simp add: pids_ok_def init_processes_def)
qed

lemma init_caps: "map capacity (init_processes caps) = caps"
proof -
  have "map capacity (init_processes caps) = map snd (enumerate 0 caps)"
    by (simp add: init_processes_def case_prod_beta comp_def)
  then show ?thesis by simp
qed

lemma init_loads: "map load (init_processes caps) = replicate (length caps) 0"
proof -
  have "map load (init_processes caps) = map (\<lambda>x. 0) (enumerate 0 caps)"
    by (simp add: init_processes_def case_prod_beta comp_def)
  then show ?thesis by (simp add: map_replicate_const)
qed

lemma caps_update:
  assumes "m < length ps"
  shows "map capacity (ps[m := (ps ! m)\<lparr>load := l\<rparr>]) = map capacity ps"
proof -
  have "map capacity (ps[m := (ps ! m)\<lparr>load := l\<rparr>]) = (map capacity ps)[m := capacity (ps ! m)]"
    by (simp add: map_update)
  also have "\<dots> = map capacity ps"
    using assms by (simp add: list_update_same_conv)
  finally show ?thesis .
qed


lemma caps_nonzero:
  "map capacity ps = caps \<Longrightarrow> 0 \<notin> set caps \<Longrightarrow> \<forall>p\<in>set ps. capacity p \<noteq> 0"
  by (metis image_eqI list.set_map)

text \<open>One step of the loop, when the configuration is sound.\<close>

lemma assign_step:
  assumes "ps \<noteq> []" and "map capacity ps = caps" and "0 \<notin> set caps" and "pids_ok ps"
    and "length ds = length ps" and "ws u = Some w"
  shows "\<exists>m. py_min w ps = Inr m \<and> m < length ps \<and>
           (\<forall>p\<in>set ps. \<not> tuple_less (key_of w p) (key_of w (ps ! m))) \<and>
           assign_loop ws (u # sids) (ps, ds) =
             assign_loop ws sids (ps[m := (ps ! m)\<lparr>load := load (ps ! m) + w\<rparr>],
                                  ds[m := ds ! m @ [u]])"
proof -
  have nz: "\<forall>p\<in>set ps. capacity p \<noteq> 0" using assms(2,3) by (rule caps_nonzero)
  from py_min_result [OF assms(1) nz, of w]
  obtain m where m: "py_min w ps = Inr m" "m < length ps"
    "\<forall>p\<in>set ps. \<not> tuple_less (key_of w p) (key_of w (ps ! m))" by blast
  have i: "py_index ps (ps ! m) = Inr m" using assms(4) m(2) by (rule py_index_pids)
  have "assign_loop ws (u # sids) (ps, ds) =
          assign_loop ws sids (ps[m := (ps ! m)\<lparr>load := load (ps ! m) + w\<rparr>],
                               ds[m := ds ! m @ [u]])"
    using m(1,2) i assms(5,6) by (simp add: Let_def)
  with m show ?thesis by blast
qed

lemma assign_loop_succeeds:
  assumes "ps \<noteq> []" and "map capacity ps = caps" and "0 \<notin> set caps" and "pids_ok ps"
    and "length ds = length ps" and "\<forall>u\<in>set sids. ws u \<noteq> None"
  shows "\<exists>ps' ds'. assign_loop ws sids (ps, ds) = Inr (ps', ds')"
  using assms
proof (induction sids arbitrary: ps ds)
  case Nil
  then show ?case by simp
next
  case (Cons u sids)
  from Cons.prems(6) obtain w where w: "ws u = Some w" by auto
  from assign_step [where ws = ws and u = u and sids = sids, OF Cons.prems(1-5) w]
  obtain m where m: "m < length ps"
    and eq: "assign_loop ws (u # sids) (ps, ds) =
             assign_loop ws sids (ps[m := (ps ! m)\<lparr>load := load (ps ! m) + w\<rparr>],
                                  ds[m := ds ! m @ [u]])"
    by blast
  let ?ps = "ps[m := (ps ! m)\<lparr>load := load (ps ! m) + w\<rparr>]"
  let ?ds = "ds[m := ds ! m @ [u]]"
  have "?ps \<noteq> []" using Cons.prems(1) by simp
  moreover have "map capacity ?ps = caps" using m Cons.prems(2) by (simp only: caps_update)
  moreover have "pids_ok ?ps" using Cons.prems(4) m by (rule pids_ok_update)
  moreover have "length ?ds = length ?ps" using Cons.prems(5) by simp
  moreover have "\<forall>u\<in>set sids. ws u \<noteq> None" using Cons.prems(6) by simp
  ultimately have "\<exists>ps' ds'. assign_loop ws sids (?ps, ?ds) = Inr (ps', ds')"
    using Cons.prems(3) Cons.IH by blast
  then show ?case using eq by simp
qed

text \<open>The function, unfolded: the effective weights and capacities.\<close>

lemma distribute_work_unfold:
  "distribute_work nproc ids weights capacities =
     (case sorted_ids (eff_weights ids weights) ids of
        Inl e \<Rightarrow> Inl e
      | Inr sids \<Rightarrow>
         (case assign_loop (eff_weights ids weights) sids
                 (init_processes (eff_capacities nproc capacities), replicate (nat nproc) []) of
            Inl e \<Rightarrow> Inl e
          | Inr (ps', ds') \<Rightarrow> Inr ds'))"
  by (simp add: distribute_work_def eff_weights_def eff_capacities_def init_processes_def Let_def
      split: sum.splits)

lemma sorted_ids_covered:
  "\<forall>x\<in>set ids. ws x \<noteq> None \<Longrightarrow> sorted_ids ws ids = Inr (sort_key (\<lambda>x. - the (ws x)) ids)"
  by (auto simp: sorted_ids_def list_ex_iff)

lemma sorted_ids_missing:
  "\<exists>x\<in>set ids. ws x = None \<Longrightarrow> sorted_ids ws ids = Inl KeyError"
  by (auto simp: sorted_ids_def list_ex_iff)

lemma valid_weights: "valid_config nproc ids weights capacities \<Longrightarrow>
   \<forall>x\<in>set ids. eff_weights ids weights x \<noteq> None"
  by (auto simp: valid_config_def eff_weights_def list_all_iff split: option.splits)

lemma valid_caps:
  assumes "valid_config nproc ids weights capacities"
  shows "length (eff_capacities nproc capacities) = nat nproc"
    and "\<forall>c\<in>set (eff_capacities nproc capacities). 0 < c"
    and "eff_capacities nproc capacities \<noteq> []"
  using assms
  by (auto simp: valid_config_def eff_capacities_def list_all_iff split: option.splits)

lemma distribute_work_valid:
  assumes v: "valid_config nproc ids weights capacities"
  shows "\<exists>ps' d. assign_loop (eff_weights ids weights)
                   (sort_key (\<lambda>x. - the (eff_weights ids weights x)) ids)
                   (init_processes (eff_capacities nproc capacities), replicate (nat nproc) [])
                  = Inr (ps', d) \<and>
                distribute_work nproc ids weights capacities = Inr d"
proof -
  let ?ws = "eff_weights ids weights"
  let ?caps = "eff_capacities nproc capacities"
  let ?sids = "sort_key (\<lambda>x. - the (?ws x)) ids"
  have cov: "\<forall>x\<in>set ids. ?ws x \<noteq> None" using v by (rule valid_weights)
  have s: "sorted_ids ?ws ids = Inr ?sids" using cov by (rule sorted_ids_covered)
  have ne: "init_processes ?caps \<noteq> []"
    using valid_caps(3) [OF v] init_length [of ?caps] by (metis length_0_conv)
  have nz: "0 \<notin> set ?caps" using valid_caps(2) [OF v] by auto
  have len: "length (replicate (nat nproc) ([]::'a list)) = length (init_processes ?caps)"
    using valid_caps(1) [OF v] by (simp add: init_length)
  have cov': "\<forall>u\<in>set ?sids. ?ws u \<noteq> None" using cov by simp
  from assign_loop_succeeds [OF ne init_caps nz init_pids len cov']
  obtain ps' d where r: "assign_loop ?ws ?sids (init_processes ?caps, replicate (nat nproc) []) = Inr (ps', d)"
    by blast
  then have "distribute_work nproc ids weights capacities = Inr d"
    using s by (simp add: distribute_work_unfold)
  with r show ?thesis by blast
qed

lemma distribute_work_result:
  assumes "distribute_work nproc ids weights capacities = Inr d"
  shows "length d = nat nproc \<and> mset (concat d) = mset ids"
proof -
  let ?ws = "eff_weights ids weights"
  from assms obtain sids ps' where s: "sorted_ids ?ws ids = Inr sids"
    and a: "assign_loop ?ws sids
              (init_processes (eff_capacities nproc capacities), replicate (nat nproc) []) = Inr (ps', d)"
    by (auto simp: distribute_work_unfold split: sum.splits)
  from s have sids: "sids = sort_key (\<lambda>x. - the (?ws x)) ids"
    by (auto simp: sorted_ids_def split: if_splits)
  from assign_loop_mset [OF a] show ?thesis by (simp add: sids)
qed

text \<open>
  Claim C6. For every worker count \<open>n \<ge> 1\<close> and every list of unit ids, with any valid
  weights and capacities, \<open>distribute_work\<close> returns an assignment with one list per
  worker, in which every input unit id occurs exactly as often as in the input: the
  multiset union of the per-worker lists is the multiset of the input ids, and the total
  number of units is preserved.
\<close>

theorem distribute_work_covers:
  assumes "valid_config nproc ids weights capacities"
  shows "\<exists>d. distribute_work nproc ids weights capacities = Inr d \<and>
             length d = nat nproc \<and> mset (concat d) = mset ids \<and>
             length (concat d) = length ids"
proof -
  from distribute_work_valid [OF assms]
  obtain d where d: "distribute_work nproc ids weights capacities = Inr d" by blast
  from distribute_work_result [OF d]
  have r: "length d = nat nproc" "mset (concat d) = mset ids" by simp_all
  from r(2) have "length (concat d) = length ids" by (rule mset_eq_length)
  with d r show ?thesis by blast
qed

theorem distribute_work_covers_witness:
  "valid_config 2 [0::nat, 1, 2, 3] None (Some [1, 3]) \<and>
   (\<exists>d. distribute_work 2 [0::nat, 1, 2, 3] None (Some [1, 3]) = Inr d \<and>
        length d = nat 2 \<and> mset (concat d) = mset [0, 1, 2, 3] \<and>
        length (concat d) = length [0::nat, 1, 2, 3])"
proof -
  have v: "valid_config 2 [0::nat, 1, 2, 3] None (Some [1, 3])"
    by (simp add: valid_config_def)
  from distribute_work_covers [OF v] v show ?thesis by blast
qed

subsection \<open>Failures\<close>

lemma assign_loop_no_dists:
  "\<exists>e. assign_loop ws (u # sids) (ps, []) = Inl e"
  by (simp add: Let_def split: option.splits sum.splits)

lemma assign_loop_zero:
  assumes "ws u = Some w" and "\<exists>p\<in>set ps. capacity p = 0"
  shows "assign_loop ws (u # sids) (ps, ds) = Inl ZeroDivisionError"
  using assms by (simp add: py_min_zero)

lemma assign_loop_no_processes:
  assumes "ws u = Some w"
  shows "assign_loop ws (u # sids) ([], ds) = Inl ValueError"
  using assms by (simp add: py_min_empty)

lemma sort_key_Cons:
  assumes "ids \<noteq> []"
  shows "\<exists>u us. sort_key f ids = u # us \<and> u \<in> set ids"
proof -
  have "sort_key f ids \<noteq> []" using assms by (metis length_0_conv length_sort)
  then obtain u us where e: "sort_key f ids = u # us" by (cases "sort_key f ids") auto
  then have "u \<in> set (sort_key f ids)" by simp
  then have "u \<in> set ids" by simp
  with e show ?thesis by blast
qed

lemma init_zero:
  assumes "0 \<in> set caps"
  shows "\<exists>p\<in>set (init_processes caps). capacity p = 0"
proof -
  have "0 \<in> set (map capacity (init_processes caps))" using assms by (simp only: init_caps)
  then show ?thesis by auto
qed

text \<open>
  Claim C8, as the code has it. \<open>distribute_work\<close> returns an assignment for every
  valid configuration, so it fails only on an invalid one. It validates nothing itself:
  an invalid configuration is noticed only where an operation fails. A unit id that
  \<open>weights\<close> does not hold raises \<open>KeyError\<close>; when every unit has a weight and there is at
  least one unit, a zero capacity raises \<open>ZeroDivisionError\<close> and an empty list of
  processes raises \<open>ValueError\<close>; a worker count \<open>\<le> 0\<close> with at least one unit raises
  some error. With no unit at all the loop never runs and the empty assignment is
  returned, whatever the worker count and the capacities are.
\<close>

theorem distribute_work_failures:
  "(valid_config nproc ids weights capacities \<longrightarrow>
      (\<exists>d. distribute_work nproc ids weights capacities = Inr d)) \<and>
   ((\<exists>x\<in>set ids. eff_weights ids weights x = None) \<longrightarrow>
      distribute_work nproc ids weights capacities = Inl KeyError) \<and>
   ((\<forall>x\<in>set ids. eff_weights ids weights x \<noteq> None) \<and> ids \<noteq> [] \<and>
      0 \<in> set (eff_capacities nproc capacities) \<longrightarrow>
      distribute_work nproc ids weights capacities = Inl ZeroDivisionError) \<and>
   ((\<forall>x\<in>set ids. eff_weights ids weights x \<noteq> None) \<and> ids \<noteq> [] \<and>
      eff_capacities nproc capacities = [] \<longrightarrow>
      distribute_work nproc ids weights capacities = Inl ValueError) \<and>
   (ids \<noteq> [] \<and> nproc \<le> 0 \<longrightarrow>
      (\<exists>e. distribute_work nproc ids weights capacities = Inl e)) \<and>
   (ids = [] \<longrightarrow>
      distribute_work nproc ids weights capacities = Inr (replicate (nat nproc) []))"
proof (intro conjI impI)
  assume "valid_config nproc ids weights capacities"
  from distribute_work_valid [OF this]
  show "\<exists>d. distribute_work nproc ids weights capacities = Inr d" by blast
next
  assume "\<exists>x\<in>set ids. eff_weights ids weights x = None"
  then have "sorted_ids (eff_weights ids weights) ids = Inl KeyError"
    by (rule sorted_ids_missing)
  then show "distribute_work nproc ids weights capacities = Inl KeyError"
    by (simp add: distribute_work_unfold)
next
  let ?ws = "eff_weights ids weights"
  assume a: "(\<forall>x\<in>set ids. ?ws x \<noteq> None) \<and> ids \<noteq> [] \<and>
      0 \<in> set (eff_capacities nproc capacities)"
  then have s: "sorted_ids ?ws ids = Inr (sort_key (\<lambda>x. - the (?ws x)) ids)"
    by (simp add: sorted_ids_covered)
  from a sort_key_Cons obtain u us where
    e: "sort_key (\<lambda>x. - the (?ws x)) ids = u # us" and u: "u \<in> set ids" by blast
  from a u obtain w where w: "?ws u = Some w" by auto
  have z: "\<exists>p\<in>set (init_processes (eff_capacities nproc capacities)). capacity p = 0"
    using a by (simp add: init_zero)
  show "distribute_work nproc ids weights capacities = Inl ZeroDivisionError"
    using s e assign_loop_zero [where ws = "?ws" and u = u, OF w z] by (simp add: distribute_work_unfold)
next
  let ?ws = "eff_weights ids weights"
  assume a: "(\<forall>x\<in>set ids. ?ws x \<noteq> None) \<and> ids \<noteq> [] \<and>
      eff_capacities nproc capacities = []"
  then have s: "sorted_ids ?ws ids = Inr (sort_key (\<lambda>x. - the (?ws x)) ids)"
    by (simp add: sorted_ids_covered)
  from a sort_key_Cons obtain u us where
    e: "sort_key (\<lambda>x. - the (?ws x)) ids = u # us" and u: "u \<in> set ids" by blast
  from a u obtain w where w: "?ws u = Some w" by auto
  have i: "init_processes (eff_capacities nproc capacities) = []"
    using a by (simp add: init_processes_def)
  show "distribute_work nproc ids weights capacities = Inl ValueError"
    using s e i assign_loop_no_processes [where ws = "?ws" and u = u, OF w] by (simp add: distribute_work_unfold)
next
  let ?ws = "eff_weights ids weights"
  assume a: "ids \<noteq> [] \<and> nproc \<le> 0"
  show "\<exists>e. distribute_work nproc ids weights capacities = Inl e"
  proof (cases "\<exists>x\<in>set ids. ?ws x = None")
    case True
    then have "sorted_ids ?ws ids = Inl KeyError" by (rule sorted_ids_missing)
    then show ?thesis by (simp add: distribute_work_unfold)
  next
    case False
    then have s: "sorted_ids ?ws ids = Inr (sort_key (\<lambda>x. - the (?ws x)) ids)"
      by (simp add: sorted_ids_covered)
    from a sort_key_Cons obtain u us where
      e: "sort_key (\<lambda>x. - the (?ws x)) ids = u # us" by blast
    have n: "replicate (nat nproc) ([]::'a list) = []" using a by simp
    from assign_loop_no_dists [of ?ws u us "init_processes (eff_capacities nproc capacities)"]
    obtain err where "assign_loop ?ws (u # us)
        (init_processes (eff_capacities nproc capacities), []) = Inl err" by blast
    then show ?thesis using s e n by (simp add: distribute_work_unfold)
  qed
next
  assume "ids = []"
  then show "distribute_work nproc ids weights capacities = Inr (replicate (nat nproc) [])"
    by (simp add: distribute_work_unfold sorted_ids_def)
qed

theorem distribute_work_failures_witness:
  "valid_config 2 [0::nat, 1] None None \<and>
   (\<exists>d. distribute_work 2 [0::nat, 1] None None = Inr d) \<and>
   distribute_work 2 [0::nat, 1] (Some (map_of [(0, 1)])) None = Inl KeyError \<and>
   distribute_work 2 [0::nat, 1] None (Some [1, 0]) = Inl ZeroDivisionError \<and>
   distribute_work 0 [0::nat, 1] None None = Inl ValueError \<and>
   (\<exists>e. distribute_work (- 1) [0::nat, 1] None (Some [1]) = Inl e) \<and>
   distribute_work 2 ([]::nat list) None (Some [0, 0]) = Inr [[], []]"
proof -
  have v: "valid_config 2 [0::nat, 1] None None" by (simp add: valid_config_def)
  have k: "\<exists>x\<in>set [0::nat, 1]. eff_weights [0, 1] (Some (map_of [(0, 1)])) x = None"
    by (simp add: eff_weights_def)
  have z: "(\<forall>x\<in>set [0::nat, 1]. eff_weights [0, 1] None x \<noteq> None) \<and> [0::nat, 1] \<noteq> [] \<and>
      0 \<in> set (eff_capacities 2 (Some [1, 0]))"
    by (simp add: eff_weights_def eff_capacities_def)
  have e: "(\<forall>x\<in>set [0::nat, 1]. eff_weights [0, 1] None x \<noteq> None) \<and> [0::nat, 1] \<noteq> [] \<and>
      eff_capacities 0 None = []"
    by (simp add: eff_weights_def eff_capacities_def)
  have n: "[0::nat, 1] \<noteq> [] \<and> (- 1 :: int) \<le> 0" by simp
  note f1 = distribute_work_failures [of 2 "[0::nat, 1]" None None]
  note f2 = distribute_work_failures [of 2 "[0::nat, 1]" "Some (map_of [(0, 1)])" None]
  note f3 = distribute_work_failures [of 2 "[0::nat, 1]" None "Some [1, 0]"]
  note f4 = distribute_work_failures [of 0 "[0::nat, 1]" None None]
  note f5 = distribute_work_failures [of "- 1" "[0::nat, 1]" None "Some [1]"]
  note f6 = distribute_work_failures [of 2 "[]::nat list" None "Some [0, 0]"]
  have "\<exists>d. distribute_work 2 [0::nat, 1] None None = Inr d" using f1 v by blast
  moreover have "distribute_work 2 [0::nat, 1] (Some (map_of [(0, 1)])) None = Inl KeyError"
    using f2 k by blast
  moreover have "distribute_work 2 [0::nat, 1] None (Some [1, 0]) = Inl ZeroDivisionError"
    using f3 z by blast
  moreover have "distribute_work 0 [0::nat, 1] None None = Inl ValueError"
    using f4 e by blast
  moreover have "\<exists>e. distribute_work (- 1) [0::nat, 1] None (Some [1]) = Inl e"
    using f5 n by blast
  moreover have "distribute_work 2 ([]::nat list) None (Some [0, 0]) = Inr [[], []]"
    using f6 by (simp add: numeral_2_eq_2)
  ultimately show ?thesis using v by blast
qed

text \<open>
  Claim C8 as stated fails: a negative capacity is an invalid configuration, yet the
  call returns an assignment; so does a worker count of zero with no units.
\<close>

theorem distribute_work_negative_capacity:
  "distribute_work 1 [0::nat] None (Some [- 1]) = Inr [[0]] \<and>
   distribute_work 0 ([]::nat list) None None = Inr []"
  by code_simp

subsection \<open>Uniform weights and capacities\<close>

lemma share_Suc:
  assumes "0 < n" and "j < n"
  shows "share n (Suc k) j = share n k j + (if j = k mod n then 1 else 0)"
proof (cases "Suc (k mod n) = n")
  case True
  then have "Suc k mod n = 0" "Suc k div n = Suc (k div n)"
    by (simp_all add: mod_Suc div_Suc)
  then show ?thesis using True assms by (auto simp: share_def)
next
  case False
  then have "Suc k mod n = Suc (k mod n)" "Suc k div n = k div n"
    by (simp_all add: mod_Suc div_Suc)
  then show ?thesis by (auto simp: share_def)
qed

lemma uniform_min:
  assumes w: "0 < w" and c: "0 < c" and ne: "ps \<noteq> []" and pids: "pids_ok ps"
    and inv: "\<forall>j<length ps. capacity (ps ! j) = c \<and>
                load (ps ! j) = of_nat (share (length ps) k j) * w"
    and m: "m < length ps"
    and least: "\<forall>p\<in>set ps. \<not> tuple_less (key_of w p) (key_of w (ps ! m))"
  shows "m = k mod length ps"
proof (rule ccontr)
  let ?n = "length ps"
  let ?r = "k mod ?n"
  assume neq: "m \<noteq> ?r"
  have n: "0 < ?n" using ne by simp
  then have r: "?r < ?n" by simp
  have kr: "key_of w (ps ! ?r) = ((of_nat (k div ?n) * w + w) / c, 1 / c, ?r)"
    using inv r pids_ok_nth [OF pids r] by (simp add: key_of_def share_def)
  have "tuple_less (key_of w (ps ! ?r)) (key_of w (ps ! m))"
  proof (cases "m < ?r")
    case True
    then have "key_of w (ps ! m) = ((of_nat (Suc (k div ?n)) * w + w) / c, 1 / c, m)"
      using inv m pids_ok_nth [OF pids m] by (simp add: key_of_def share_def)
    moreover have "(of_nat (k div ?n) * w + w) / c < (of_nat (Suc (k div ?n)) * w + w) / c"
      using w c by (simp add: divide_strict_right_mono algebra_simps)
    ultimately show ?thesis using kr by simp
  next
    case False
    then have gt: "?r < m" using neq by simp
    then have "key_of w (ps ! m) = ((of_nat (k div ?n) * w + w) / c, 1 / c, m)"
      using inv m pids_ok_nth [OF pids m] by (simp add: key_of_def share_def)
    then show ?thesis using kr gt by simp
  qed
  moreover have "ps ! ?r \<in> set ps" using r by simp
  ultimately show False using least by blast
qed

lemma assign_loop_uniform:
  assumes "0 < w" and "0 < c" and "ps \<noteq> []" and "pids_ok ps" and "length ds = length ps"
    and "\<forall>j<length ps. capacity (ps ! j) = c \<and>
           load (ps ! j) = of_nat (share (length ps) k j) * w \<and>
           length (ds ! j) = share (length ps) k j"
    and "\<forall>u\<in>set sids. ws u = Some w"
  shows "\<exists>ps' ds'. assign_loop ws sids (ps, ds) = Inr (ps', ds') \<and>
           (\<forall>j<length ps. length (ds' ! j) = share (length ps) (k + length sids) j)"
  using assms
proof (induction sids arbitrary: ps ds k)
  case Nil
  then show ?case by simp
next
  case (Cons u sids)
  note w = Cons.prems(1) and c = Cons.prems(2) and ne = Cons.prems(3)
    and pids = Cons.prems(4) and len = Cons.prems(5) and inv = Cons.prems(6)
  let ?n = "length ps"
  have n: "0 < ?n" using ne by simp
  have wu: "ws u = Some w" using Cons.prems(7) by simp
  have nz: "0 \<notin> set (map capacity ps)"
  proof
    assume "0 \<in> set (map capacity ps)"
    then obtain j where "j < ?n" "capacity (ps ! j) = 0"
      by (auto simp: in_set_conv_nth)
    then show False using inv c by auto
  qed
  from assign_step [where ws = ws and u = u and sids = sids, OF ne refl nz pids len wu]
  obtain m where m: "m < ?n"
    and least: "\<forall>p\<in>set ps. \<not> tuple_less (key_of w p) (key_of w (ps ! m))"
    and eq: "assign_loop ws (u # sids) (ps, ds) =
             assign_loop ws sids (ps[m := (ps ! m)\<lparr>load := load (ps ! m) + w\<rparr>],
                                  ds[m := ds ! m @ [u]])"
    by blast
  have inv0: "\<forall>j<?n. capacity (ps ! j) = c \<and> load (ps ! j) = of_nat (share ?n k j) * w"
    using inv by simp
  have mk: "m = k mod ?n" using w c ne pids inv0 m least by (rule uniform_min)
  let ?ps = "ps[m := (ps ! m)\<lparr>load := load (ps ! m) + w\<rparr>]"
  let ?ds = "ds[m := ds ! m @ [u]]"
  have l: "length ?ps = ?n" by simp
  have inv': "\<forall>j<length ?ps. capacity (?ps ! j) = c \<and>
           load (?ps ! j) = of_nat (share (length ?ps) (Suc k) j) * w \<and>
           length (?ds ! j) = share (length ?ps) (Suc k) j"
  proof (intro allI impI)
    fix j assume "j < length ?ps"
    then have j: "j < ?n" by simp
    have s: "share ?n (Suc k) j = share ?n k j + (if j = m then 1 else 0)"
      using share_Suc [OF n j, of k] mk by simp
    show "capacity (?ps ! j) = c \<and>
           load (?ps ! j) = of_nat (share (length ?ps) (Suc k) j) * w \<and>
           length (?ds ! j) = share (length ?ps) (Suc k) j"
    proof (cases "j = m")
      case True
      then show ?thesis using inv j len s by (simp add: algebra_simps)
    next
      case False
      then show ?thesis using inv j len s by simp
    qed
  qed
  have "\<exists>ps' ds'. assign_loop ws sids (?ps, ?ds) = Inr (ps', ds') \<and>
           (\<forall>j<length ?ps. length (ds' ! j) = share (length ?ps) (Suc k + length sids) j)"
  proof (rule Cons.IH [OF w c])
    show "?ps \<noteq> []" using ne by simp
    show "pids_ok ?ps" using pids m by (rule pids_ok_update)
    show "length ?ds = length ?ps" using len by simp
    show "\<forall>j<length ?ps. capacity (?ps ! j) = c \<and>
           load (?ps ! j) = of_nat (share (length ?ps) (Suc k) j) * w \<and>
           length (?ds ! j) = share (length ?ps) (Suc k) j" by (rule inv')
    show "\<forall>u\<in>set sids. ws u = Some w" using Cons.prems(7) by simp
  qed
  then show ?case using eq l by simp
qed

lemma distribute_work_uniform:
  assumes n: "0 < nproc" and w: "0 < w" and c: "0 < c"
    and ws: "\<forall>x\<in>set ids. eff_weights ids weights x = Some w"
    and cs: "eff_capacities nproc capacities = replicate (nat nproc) c"
  shows "\<exists>d. distribute_work nproc ids weights capacities = Inr d \<and> length d = nat nproc \<and>
           (\<forall>j<nat nproc. length (d ! j) = share (nat nproc) (length ids) j)"
proof -
  let ?ws = "eff_weights ids weights"
  let ?sids = "sort_key (\<lambda>x. - the (?ws x)) ids"
  let ?ps = "init_processes (replicate (nat nproc) c)"
  let ?ds = "replicate (nat nproc) ([]::'a list)"
  have lp: "length ?ps = nat nproc" by (simp add: init_length)
  have s: "sorted_ids ?ws ids = Inr ?sids" using ws by (simp add: sorted_ids_covered)
  have ne: "?ps \<noteq> []" using n lp by (metis length_0_conv nat_0_iff not_less)
  have capj: "\<And>j. j < nat nproc \<Longrightarrow> capacity (?ps ! j) = c"
  proof -
    fix j assume j: "j < nat nproc"
    have "capacity (?ps ! j) = map capacity ?ps ! j" using j lp by simp
    then show "capacity (?ps ! j) = c" using j by (simp only: init_caps) simp
  qed
  have loadj: "\<And>j. j < nat nproc \<Longrightarrow> load (?ps ! j) = 0"
  proof -
    fix j assume j: "j < nat nproc"
    have "load (?ps ! j) = map load ?ps ! j" using j lp by simp
    then show "load (?ps ! j) = 0" using j by (simp only: init_loads) simp
  qed
  have inv: "\<forall>j<length ?ps. capacity (?ps ! j) = c \<and>
           load (?ps ! j) = of_nat (share (length ?ps) 0 j) * w \<and>
           length (?ds ! j) = share (length ?ps) 0 j"
    using capj loadj lp by (simp add: share_def)
  have wsids: "\<forall>u\<in>set ?sids. ?ws u = Some w" using ws by simp
  have len: "length ?ds = length ?ps" using lp by simp
  from assign_loop_uniform [OF w c ne init_pids len inv wsids]
  obtain ps' d where a: "assign_loop ?ws ?sids (?ps, ?ds) = Inr (ps', d)"
    and sh: "\<forall>j<length ?ps. length (d ! j) = share (length ?ps) (0 + length ?sids) j"
    by blast
  have dw: "distribute_work nproc ids weights capacities = Inr d"
    using s a cs by (simp add: distribute_work_unfold)
  from distribute_work_result [OF dw] have "length d = nat nproc" by simp
  with dw sh lp show ?thesis by simp
qed

text \<open>
  Claim C7, as the code has it. For every worker count \<open>n \<ge> 1\<close> and every list of units
  that all have one common positive weight (the default weight 1 is one), with one
  common positive capacity for all workers (the default capacity 1 is one): if the
  number of units is divisible by \<open>n\<close>, the call returns an assignment in which every
  worker has exactly \<open>|U| / n\<close> units.
\<close>

theorem distribute_work_balanced:
  assumes "0 < nproc" and "0 < w" and "0 < c"
    and "\<forall>x\<in>set ids. eff_weights ids weights x = Some w"
    and "eff_capacities nproc capacities = replicate (nat nproc) c"
    and "nat nproc dvd length ids"
  shows "\<exists>d. distribute_work nproc ids weights capacities = Inr d \<and> length d = nat nproc \<and>
           (\<forall>j<nat nproc. length (d ! j) = length ids div nat nproc)"
proof -
  from distribute_work_uniform [OF assms(1-5)]
  obtain d where d: "distribute_work nproc ids weights capacities = Inr d"
    "length d = nat nproc"
    "\<forall>j<nat nproc. length (d ! j) = share (nat nproc) (length ids) j" by blast
  have "length ids mod nat nproc = 0" using assms(6) by simp
  then have "\<forall>j<nat nproc. length (d ! j) = length ids div nat nproc"
    using d(3) by (simp add: share_def)
  with d show ?thesis by blast
qed

theorem distribute_work_balanced_witness:
  "eff_capacities 2 None = replicate (nat 2) 1 \<and> nat 2 dvd length [0::nat, 1, 2, 3] \<and>
   (\<exists>d. distribute_work 2 [0::nat, 1, 2, 3] None None = Inr d \<and> length d = nat 2 \<and>
        (\<forall>j<nat 2. length (d ! j) = length [0::nat, 1, 2, 3] div nat 2))"
proof -
  have a: "\<forall>x\<in>set [0::nat, 1, 2, 3]. eff_weights [0, 1, 2, 3] None x = Some 1"
    by (simp add: eff_weights_def)
  have b: "eff_capacities 2 None = replicate (nat 2) 1" by (simp add: eff_capacities_def)
  have c: "nat 2 dvd length [0::nat, 1, 2, 3]" by simp
  have p: "(0::int) < 2" "(0::rat) < 1" by simp_all
  from distribute_work_balanced [OF p(1) p(2) p(2) a b c] b c show ?thesis by blast
qed

text \<open>
  Claim C7 as stated fails for the uniform weight 0: no load ever grows, every tie
  goes to the smallest worker index, and worker 0 receives both units.
\<close>

theorem distribute_work_zero_weights:
  "distribute_work 2 [0::nat, 1] (Some (map_of [(0, 0), (1, 0)])) None = Inr [[0, 1], []]"
  by code_simp

subsection \<open>The code against the reference algorithm\<close>











section \<open>Properties of the scan\<close>

subsection \<open>Loops\<close>



lemma target_loop_Inr:
  "target_loop body td js q = Inr (rows, q') \<Longrightarrow>
     length rows = length js \<and>
     (\<forall>k<length js. js ! k < length td \<and>
        (\<exists>q1 q2. body q1 (td ! (js ! k)) = Inr (rows ! k, q2)))"
proof (induction js arbitrary: q rows)
  case Nil
  then show ?case by simp
next
  case (Cons j js)
  from Cons.prems obtain row q1 rows' where j: "j < length td"
    and b: "body q (td ! j) = Inr (row, q1)"
    and r: "target_loop body td js q1 = Inr (rows', q')"
    and e: "rows = row # rows'"
    by (auto split: if_splits sum.splits prod.splits)
  from Cons.IH [OF r] have l: "length rows' = length js"
    and a: "\<forall>k<length js. js ! k < length td \<and>
        (\<exists>q1 q2. body q1 (td ! (js ! k)) = Inr (rows' ! k, q2))" by simp_all
  have "\<forall>k<length (j # js). (j # js) ! k < length td \<and>
        (\<exists>q1 q2. body q1 (td ! ((j # js) ! k)) = Inr (rows ! k, q2))"
  proof (intro allI impI)
    fix k assume "k < length (j # js)"
    then show "(j # js) ! k < length td \<and>
        (\<exists>q1 q2. body q1 (td ! ((j # js) ! k)) = Inr (rows ! k, q2))"
      using j b a e by (cases k) auto
  qed
  then show ?case using l e by simp
qed

lemma calc_zchi2_v3_row:
  assumes r: "calc_zchi2_v3 np_solve cp_solve target_ids target_data dtemplate progress use_gpu
                = Inr ((zchi2, zcoeff, penalty), q)"
    and j: "j < length target_ids"
  shows "j < length target_data \<and> j < length zchi2 \<and> j < length zcoeff \<and> j < length penalty \<and>
         (\<exists>q1 q2. calc_zchi2_v3_target np_solve cp_solve dtemplate (v3_tdata dtemplate use_gpu)
                     use_gpu q1 (target_data ! j) = Inr ((zchi2 ! j, zcoeff ! j, penalty ! j), q2))"
proof -
  let ?body = "calc_zchi2_v3_target np_solve cp_solve dtemplate (v3_tdata dtemplate use_gpu) use_gpu"
  have u: "calc_zchi2_v3 np_solve cp_solve target_ids target_data dtemplate progress use_gpu =
      (if use_gpu \<and> local_data (local dtemplate) = [] then Inl IndexError
       else case target_loop ?body target_data [0..<length target_ids] progress of
              Inl e \<Rightarrow> Inl e
            | Inr (rows, progress') \<Rightarrow>
                Inr ((map fst rows, map (\<lambda>r. fst (snd r)) rows, map (\<lambda>r. snd (snd r)) rows),
                     progress'))"
    by (simp add: calc_zchi2_v3_def v3_tdata_def Let_def)
  obtain rows where
    tl: "target_loop ?body target_data [0..<length target_ids] progress = Inr (rows, q)"
    and z: "zchi2 = map fst rows" and c: "zcoeff = map (\<lambda>r. fst (snd r)) rows"
    and p: "penalty = map (\<lambda>r. snd (snd r)) rows"
  proof (cases "target_loop ?body target_data [0..<length target_ids] progress")
    case (Inl e)
    then show ?thesis using r u by (simp split: if_splits)
  next
    case (Inr res)
    obtain rows q0 where res: "res = (rows, q0)" by (cases res)
    show ?thesis
    proof (rule that [of rows])
      show "target_loop ?body target_data [0..<length target_ids] progress = Inr (rows, q)"
        using r u Inr res by (simp split: if_splits)
      show "zchi2 = map fst rows" using r u Inr res by (simp split: if_splits)
      show "zcoeff = map (\<lambda>r. fst (snd r)) rows" using r u Inr res by (simp split: if_splits)
      show "penalty = map (\<lambda>r. snd (snd r)) rows" using r u Inr res by (simp split: if_splits)
    qed
  qed
  from target_loop_Inr [OF tl] have l: "length rows = length target_ids"
    and a: "\<forall>k<length target_ids. [0..<length target_ids] ! k < length target_data \<and>
        (\<exists>q1 q2. ?body q1 (target_data ! ([0..<length target_ids] ! k)) = Inr (rows ! k, q2))"
    by simp_all
  from a j have jt: "j < length target_data"
    and b: "\<exists>q1 q2. ?body q1 (target_data ! j) = Inr (rows ! j, q2)" by auto
  have e: "(zchi2 ! j, zcoeff ! j, penalty ! j) = rows ! j" using z c p l j by simp
  have "\<exists>q1 q2. ?body q1 (target_data ! j) = Inr ((zchi2 ! j, zcoeff ! j, penalty ! j), q2)"
    unfolding e by (rule b)
  moreover have "j < length zchi2" "j < length zcoeff" "j < length penalty"
    using z c p l j by simp_all
  ultimately show ?thesis using jt by blast
qed

subsection \<open>A target without weight\<close>

lemma zero_weight_target:
  assumes "sum_list (target_weights tg) = 0"
  shows "calc_zchi2_v3_target np_solve cp_solve dtemplate tdata use_gpu progress tg =
           Inr ((replicate (local_nz dtemplate) sentinel,
                 replicate (local_nz dtemplate) (replicate (nbasis (template dtemplate)) 0),
                 replicate (local_nz dtemplate) 0), progress)"
proof -
  obtain w f wf where sd: "spectral_data (target_spectra tg) = (w, f, wf)"
    by (cases "spectral_data (target_spectra tg)")
  then have "sum_list w = 0" using assms by (simp add: target_weights_def)
  then show ?thesis using sd
    by (simp add: calc_zchi2_v3_target_def local_nz_def Let_def)
qed

text \<open>
  Claim C3. For every target whose concatenated inverse-variance weights sum to zero,
  the scan sets the chi-squared to \<open>9e99\<close> at every redshift of the local grid, for every
  template type and on both execution paths, and does no linear algebra for that target:
  the loop body returns this row whatever the solvers and the template data are (also
  for solvers that would raise), and leaves the progress queue as it was. In every
  result of \<open>calc_zchi2_v3\<close> the row of such a target is all \<open>9e99\<close>.
\<close>

theorem zero_weight_chi2:
  assumes "sum_list (target_weights tg) = 0"
  shows "(\<exists>zc pen. calc_zchi2_v3_target np_solve cp_solve dtemplate tdata use_gpu progress tg =
            Inr ((replicate (local_nz dtemplate) sentinel, zc, pen), progress)) \<and>
         (\<forall>target_ids target_data zchi2 zcoeff penalty q j.
            calc_zchi2_v3 np_solve cp_solve target_ids target_data dtemplate progress use_gpu
              = Inr ((zchi2, zcoeff, penalty), q) \<and>
            j < length (target_ids :: nat list) \<and> target_data ! j = tg \<longrightarrow>
            zchi2 ! j = replicate (local_nz dtemplate) sentinel)"
proof (intro conjI allI impI)
  show "\<exists>zc pen. calc_zchi2_v3_target np_solve cp_solve dtemplate tdata use_gpu progress tg =
            Inr ((replicate (local_nz dtemplate) sentinel, zc, pen), progress)"
    using zero_weight_target [OF assms] by blast
next
  fix target_ids :: "nat list" and target_data zchi2 zcoeff penalty q j
  assume a: "calc_zchi2_v3 np_solve cp_solve target_ids target_data dtemplate progress use_gpu
              = Inr ((zchi2, zcoeff, penalty), q) \<and>
            j < length target_ids \<and> target_data ! j = tg"
  from calc_zchi2_v3_row [of np_solve cp_solve target_ids target_data dtemplate progress use_gpu
      zchi2 zcoeff penalty q j] a
  obtain q1 q2 where "calc_zchi2_v3_target np_solve cp_solve dtemplate (v3_tdata dtemplate use_gpu)
                     use_gpu q1 tg = Inr ((zchi2 ! j, zcoeff ! j, penalty ! j), q2)"
    by auto
  then show "zchi2 ! j = replicate (local_nz dtemplate) sentinel"
    using zero_weight_target [OF assms] by simp
qed

text \<open>
  Claim C10. For every target whose concatenated inverse-variance weights sum to zero,
  the returned coefficient vectors are all zeros at every redshift and the returned
  penalties are zero at every redshift, for every template type, \<open>GALAXY\<close> included:
  the [OII] penalty is not computed for that target (the result does not depend on the
  template's flux or wavelengths).
\<close>

theorem zero_weight_coeff_penalty:
  assumes "sum_list (target_weights tg) = 0"
  shows "(\<exists>zc. calc_zchi2_v3_target np_solve cp_solve dtemplate tdata use_gpu progress tg =
            Inr ((zc, replicate (local_nz dtemplate) (replicate (nbasis (template dtemplate)) 0),
                  replicate (local_nz dtemplate) 0), progress)) \<and>
         (\<forall>target_ids target_data zchi2 zcoeff penalty q j.
            calc_zchi2_v3 np_solve cp_solve target_ids target_data dtemplate progress use_gpu
              = Inr ((zchi2, zcoeff, penalty), q) \<and>
            j < length (target_ids :: nat list) \<and> target_data ! j = tg \<longrightarrow>
            zcoeff ! j = replicate (local_nz dtemplate) (replicate (nbasis (template dtemplate)) 0) \<and>
            penalty ! j = replicate (local_nz dtemplate) 0)"
proof (intro conjI allI impI)
  show "\<exists>zc. calc_zchi2_v3_target np_solve cp_solve dtemplate tdata use_gpu progress tg =
            Inr ((zc, replicate (local_nz dtemplate) (replicate (nbasis (template dtemplate)) 0),
                  replicate (local_nz dtemplate) 0), progress)"
    using zero_weight_target [OF assms] by blast
next
  fix target_ids :: "nat list" and target_data zchi2 zcoeff penalty q j
  assume a: "calc_zchi2_v3 np_solve cp_solve target_ids target_data dtemplate progress use_gpu
              = Inr ((zchi2, zcoeff, penalty), q) \<and>
            j < length target_ids \<and> target_data ! j = tg"
  from calc_zchi2_v3_row [of np_solve cp_solve target_ids target_data dtemplate progress use_gpu
      zchi2 zcoeff penalty q j] a
  obtain q1 q2 where b: "calc_zchi2_v3_target np_solve cp_solve dtemplate (v3_tdata dtemplate use_gpu)
                     use_gpu q1 tg = Inr ((zchi2 ! j, zcoeff ! j, penalty ! j), q2)"
    by auto
  show "zcoeff ! j = replicate (local_nz dtemplate) (replicate (nbasis (template dtemplate)) 0)"
    using b zero_weight_target [OF assms] by simp
  show "penalty ! j = replicate (local_nz dtemplate) 0"
    using b zero_weight_target [OF assms] by simp
qed



lemma ex_dark_weights: "sum_list (target_weights ex_dark_target) = 0"
  by code_simp

theorem zero_weight_chi2_witness:
  "sum_list (target_weights ex_dark_target) = 0 \<and>
   (\<exists>zc pen. calc_zchi2_v3_target np_linalg_solve cp_linalg_solve (ex_dtemplate ''GALAXY'')
       (v3_tdata (ex_dtemplate ''GALAXY'') True) True None ex_dark_target =
       Inr ((replicate (local_nz (ex_dtemplate ''GALAXY'')) sentinel, zc, pen), None))"
  using zero_weight_chi2 [OF ex_dark_weights] ex_dark_weights by blast

theorem zero_weight_coeff_penalty_witness:
  "sum_list (target_weights ex_dark_target) = 0 \<and>
   (\<exists>zc. calc_zchi2_v3_target np_linalg_solve cp_linalg_solve (ex_dtemplate ''GALAXY'')
       (v3_tdata (ex_dtemplate ''GALAXY'') False) False None ex_dark_target =
       Inr ((zc, replicate (local_nz (ex_dtemplate ''GALAXY''))
                   (replicate (nbasis (template (ex_dtemplate ''GALAXY''))) 0),
             replicate (local_nz (ex_dtemplate ''GALAXY'')) 0), None))"
  using zero_weight_coeff_penalty [OF ex_dark_weights] ex_dark_weights by blast

lemma ex_scan_dark:
  "calc_zchi2_v3 np_linalg_solve cp_linalg_solve [2::nat] [ex_dark_target] (ex_dtemplate ''GALAXY'') None False
     = Inr (([[sentinel, sentinel]], [[[0], [0]]], [[0, 0]]), None)"
  by code_simp

subsection \<open>A singular fit on the host\<close>


lemma host_step_solved:
  assumes "i < length td"
    and "np_solve (design_M spectra td weights i) (design_y spectra td wflux i) = Inr c"
  shows "zchi2_host_step np_solve spectra td weights fluxes wflux nb i =
           Inr (chi2_of weights fluxes (design spectra td i) c, c)"
  using assms by (simp add: zchi2_host_step_def design_M_def design_y_def design_def Let_def)

lemma batch_host_unfold:
  "calc_zchi2_batch_v3 np_solve cp_solve spectra (PerRedshift td) weights fluxes wflux nz nb False =
     (case py_for (zchi2_host_step np_solve spectra td weights fluxes wflux nb) [0..<nz] of
        Inl e \<Rightarrow> Inl e
      | Inr rows \<Rightarrow> Inr (map fst rows, map snd rows))"
  by (simp add: calc_zchi2_batch_v3_def)

subsection \<open>Singular matrices and the elimination\<close>








lemma ex_design: "design [ex_spectrum] ex_local_data 0 = [[0]]" "design [ex_spectrum] ex_local_data 1 = [[2]]"
  by code_simp+





text \<open>
  On the GPU no sentinel is written. At the singular first redshift of the example the
  design matrix is zero, so the model flux is zero whatever coefficients the device
  solver returns, and the chi-squared there is \<open>1\<close>.
\<close>

lemma device_no_sentinel:
  assumes "calc_zchi2_batch_v3 np_solve cp_solve [ex_spectrum]
             (Stacked (\<lambda>key. map (\<lambda>d. d key) ex_local_data)) [1] [1] [1] 2 1 True
           = Inr (zchi2, zcoeff)"
    and "zcoeff \<noteq> []"
  shows "zchi2 ! 0 = 1"
proof -
  have Tbs: "batch_dot_product_sparse [ex_spectrum] (\<lambda>key. map (\<lambda>d. d key) ex_local_data) 2 True
               = [[[0]], [[2]]]"
    by code_simp
  from assms(2) obtain c cs where zc: "zcoeff = c # cs" by (cases zcoeff) auto
  from assms(1) have "zchi2 = map (\<lambda>m. dot (map2 (\<lambda>f x. (f - x) * (f - x)) [1] m) [1])
      (calc_batch_dot_product_3d2d [[[0]], [[2]]] zcoeff True)"
    by (auto simp: calc_zchi2_batch_v3_def Tbs Let_def split: sum.splits)
  then show ?thesis
    by (cases c) (simp_all add: zc calc_batch_dot_product_3d2d_def
        calc_batch_dot_product_3d2d_gpu_def matvec_def dot_def)
qed


subsection \<open>Rectangular matrices\<close>

lemma transpose_rect:
  assumes "xs \<noteq> []" and "\<forall>row\<in>set xs. length row = n"
  shows "transpose xs = map (\<lambda>i. map (\<lambda>row. row ! i) xs) [0..<n]"
proof -
  have "transpose xs = map (\<lambda>i. map (\<lambda>j. xs ! j ! i) [0..<length xs]) [0..<n]"
    by (rule transpose_rectangle) (use assms in auto)
  moreover have "map (\<lambda>j. xs ! j ! i) [0..<length xs] = map (\<lambda>row. row ! i) xs" for i
    by (rule nth_equalityI) simp_all
  ultimately show ?thesis by simp
qed

lemma transpose_thrice_rect:
  assumes "\<forall>row\<in>set xs. length row = n"
  shows "transpose (transpose (transpose xs)) = transpose xs"
proof (cases "xs = []")
  case True
  then show ?thesis by simp
next
  case False
  have t: "transpose xs = map (\<lambda>i. map (\<lambda>row. row ! i) xs) [0..<n]"
    using False assms by (rule transpose_rect)
  have "\<forall>col\<in>set (transpose xs). col \<noteq> []" using False by (auto simp: t)
  then have "takeWhile (\<lambda>x. x \<noteq> []) (transpose xs) = transpose xs"
    by (simp add: takeWhile_eq_all_conv)
  moreover have "transpose (transpose (transpose xs)) = takeWhile (\<lambda>x. x \<noteq> []) (transpose xs)"
    by (rule transpose_transpose) simp
  ultimately show ?thesis by simp
qed

lemma dot_nth:
  assumes "length c = length xs"
  shows "dot c xs = sum_list (map (\<lambda>b. c ! b * xs ! b) [0..<length c])"
proof -
  have "map2 (*) c xs = map (\<lambda>b. c ! b * xs ! b) [0..<length c]"
    using assms by (intro nth_equalityI) simp_all
  then show ?thesis by (simp add: dot_def)
qed

subsection \<open>The [OII] penalty\<close>

lemma select_by_mask:
  assumes "length ws = length row"
  shows "map snd (filter fst (zip (map P ws) row)) =
         map (nth row) (filter (\<lambda>k. P (ws ! k)) [0..<length ws])"
  using assms
proof (induction ws row rule: list_induct2)
  case Nil
  then show ?case by simp
next
  case (Cons w ws r row)
  have "[0..<Suc (length ws)] = 0 # [Suc 0..<Suc (length ws)]"
    by (rule upt_conv_Cons) simp
  then have u: "[0..<length (w # ws)] = 0 # map Suc [0..<length ws]"
    by (simp only: map_Suc_upt list.size(4) One_nat_def add_Suc_right add_0_right)
  have f: "filter (\<lambda>k. P ((w # ws) ! k)) (map Suc [0..<length ws]) =
           map Suc (filter (\<lambda>k. P (ws ! k)) [0..<length ws])"
    by (simp add: filter_map comp_def)
  have m: "map (nth (r # row)) (map Suc ks) = map (nth row) ks" for ks
    by simp
  show ?case
    unfolding u using Cons.IH f m by simp
qed

lemma OIItemplate_columns:
  assumes rect: "\<forall>row\<in>set (template_flux t). length row = length (wave t)"
    and ne: "template_flux t \<noteq> []"
  shows "transpose (transpose (OIItemplate t)) =
         map (\<lambda>k. map (\<lambda>row. row ! k) (template_flux t))
             (filter (\<lambda>k. in_OII_window (wave t ! k)) [0..<length (wave t)])"
proof -
  let ?idx = "filter (\<lambda>k. in_OII_window (wave t ! k)) [0..<length (wave t)]"
  let ?F = "map (\<lambda>row. map snd (filter fst (zip (isOII t) row))) (template_flux t)"
  have sel: "map snd (filter fst (zip (isOII t) row)) = map (nth row) ?idx"
    if "row \<in> set (template_flux t)" for row
  proof -
    have "length (wave t) = length row" using rect that by simp
    from select_by_mask [OF this, of "\<lambda>w. 3724 \<le> w \<and> w \<le> 3733"]
    show ?thesis by (simp add: isOII_def in_OII_window_def)
  qed
  have F: "?F = map (\<lambda>row. map (nth row) ?idx) (template_flux t)"
    using sel by simp
  have Frect: "\<forall>row\<in>set ?F. length row = length ?idx" unfolding F by simp
  have Fne: "?F \<noteq> []" using ne by simp
  have "transpose (transpose (OIItemplate t)) = transpose ?F"
    unfolding OIItemplate_def using Frect by (rule transpose_thrice_rect)
  also have "\<dots> = map (\<lambda>i. map (\<lambda>row. row ! i) ?F) [0..<length ?idx]"
    using Fne Frect by (rule transpose_rect)
  also have "\<dots> = map (\<lambda>i. map (\<lambda>row. row ! (?idx ! i)) (template_flux t)) [0..<length ?idx]"
    unfolding F by (simp add: comp_def)
  also have "\<dots> = map (\<lambda>k. map (\<lambda>row. row ! k) (template_flux t)) ?idx"
    by (rule nth_equalityI) simp_all
  finally show ?thesis .
qed

lemma OIIflux_row:
  assumes rect: "\<forall>row\<in>set (template_flux t). length row = length (wave t)"
    and len: "length c = length (template_flux t)"
  shows "sum_list (map (dot c) (transpose (transpose (OIItemplate t)))) = spec_OIIflux t c"
proof (cases "template_flux t = []")
  case True
  then have "OIItemplate t = []" by (simp add: OIItemplate_def)
  moreover have "length c = 0" using len True by simp
  ultimately show ?thesis by (simp add: spec_OIIflux_def)
next
  case False
  let ?idx = "filter (\<lambda>k. in_OII_window (wave t ! k)) [0..<length (wave t)]"
  have d: "dot c (map (\<lambda>row. row ! k) (template_flux t)) =
           sum_list (map (\<lambda>b. c ! b * template_flux t ! b ! k) [0..<length c])" for k
  proof -
    have "dot c (map (\<lambda>row. row ! k) (template_flux t)) =
          sum_list (map (\<lambda>b. c ! b * map (\<lambda>row. row ! k) (template_flux t) ! b) [0..<length c])"
      by (rule dot_nth) (simp add: len)
    also have "\<dots> = sum_list (map (\<lambda>b. c ! b * template_flux t ! b ! k) [0..<length c])"
      by (rule arg_cong [where f = sum_list]) (simp add: len)
    finally show ?thesis .
  qed
  show ?thesis
    unfolding OIItemplate_columns [OF rect False] spec_OIIflux_def
    by (simp add: comp_def d)
qed

lemma OII_penalty_spec:
  assumes rect: "\<forall>row\<in>set (template_flux t). length row = length (wave t)"
    and len: "\<forall>c\<in>set zc. length c = length (template_flux t)"
  shows "OII_penalty t zc =
         map (\<lambda>c. if spec_OIIflux t c < 0 then - spec_OIIflux t c else 0) zc"
proof -
  have "OIIflux t zc = map (spec_OIIflux t) zc"
    unfolding OIIflux_def matmul_def using OIIflux_row [OF rect] len by simp
  then show ?thesis by (simp add: OII_penalty_def comp_def)
qed

lemma spec_OIIflux_zero: "spec_OIIflux t (replicate n 0) = 0"
proof -
  have m: "map (\<lambda>b. replicate n 0 ! b * template_flux t ! b ! k) [0..<n] = map (\<lambda>b. 0) [0..<n]" for k
    by (rule map_cong) simp_all
  have "sum_list (map (\<lambda>b. replicate n 0 ! b * template_flux t ! b ! k) [0..<n]) = 0" for k
    unfolding m by simp
  then show ?thesis unfolding spec_OIIflux_def length_replicate by simp
qed

lemma target_penalty:
  assumes nz: "sum_list (target_weights tg) \<noteq> 0"
    and b: "calc_zchi2_v3_target np_solve cp_solve dtemplate tdata use_gpu q1 tg
              = Inr ((z, c, p), q2)"
  shows "p = (if template_type (template dtemplate) = ''GALAXY''
              then OII_penalty (template dtemplate) c
              else replicate (local_nz dtemplate) 0)"
proof -
  obtain w f wf where sd: "spectral_data (target_spectra tg) = (w, f, wf)"
    by (cases "spectral_data (target_spectra tg)")
  then have w: "sum_list w \<noteq> 0" using nz by (simp add: target_weights_def)
  let ?batch = "calc_zchi2_batch_v3 np_solve cp_solve (target_spectra tg) tdata w f wf
                  (length (local_redshifts (local dtemplate))) (nbasis (template dtemplate)) use_gpu"
  show ?thesis
  proof (cases ?batch)
    case (Inl e)
    then show ?thesis using b sd w by (simp add: calc_zchi2_v3_target_def Let_def)
  next
    case (Inr res)
    obtain zj cj where res: "res = (zj, cj)" by (cases res)
    show ?thesis
      using b sd w Inr res
      by (auto simp: calc_zchi2_v3_target_def Let_def local_nz_def split: if_splits option.splits)
  qed
qed

text \<open>
  Claim C4. For every target and redshift of a returned scan, given a template whose
  flux rows have one entry per wavelength and coefficient vectors with one entry per
  basis vector: for the template type \<open>GALAXY\<close> the penalty is computed from the basis
  restricted to the wavelengths in the window 3724--3733, as the sum over the window of
  the flux modelled from the fitted coefficients, and equals the negated sum when the
  sum is negative and zero otherwise; for every other template type it is zero.
\<close>

theorem penalty_rule:
  assumes rect: "\<forall>row\<in>set (template_flux (template dtemplate)).
                   length row = length (wave (template dtemplate))"
    and r: "calc_zchi2_v3 np_solve cp_solve target_ids target_data dtemplate progress use_gpu
              = Inr ((zchi2, zcoeff, penalty), q)"
    and j: "j < length target_ids"
    and len: "\<forall>c\<in>set (zcoeff ! j). length c = length (template_flux (template dtemplate))"
  shows "(template_type (template dtemplate) = ''GALAXY'' \<longrightarrow>
            penalty ! j = map (\<lambda>c. if spec_OIIflux (template dtemplate) c < 0
                                   then - spec_OIIflux (template dtemplate) c else 0) (zcoeff ! j)) \<and>
         (template_type (template dtemplate) \<noteq> ''GALAXY'' \<longrightarrow>
            penalty ! j = replicate (local_nz dtemplate) 0)"
proof -
  let ?t = "template dtemplate"
  let ?tg = "target_data ! j"
  from calc_zchi2_v3_row [OF r j] obtain q1 q2 where
    b: "calc_zchi2_v3_target np_solve cp_solve dtemplate (v3_tdata dtemplate use_gpu) use_gpu q1 ?tg
          = Inr ((zchi2 ! j, zcoeff ! j, penalty ! j), q2)"
    by blast
  show ?thesis
  proof (cases "sum_list (target_weights ?tg) = 0")
    case True
    from zero_weight_target [OF True] b
    have c: "zcoeff ! j = replicate (local_nz dtemplate) (replicate (nbasis ?t) 0)"
      and p: "penalty ! j = replicate (local_nz dtemplate) 0"
      by simp_all
    have "map (\<lambda>c. if spec_OIIflux ?t c < 0 then - spec_OIIflux ?t c else 0) (zcoeff ! j) =
          replicate (local_nz dtemplate) 0"
      unfolding c by (simp add: spec_OIIflux_zero)
    then show ?thesis using p by simp
  next
    case False
    from target_penalty [OF False b]
    have p: "penalty ! j = (if template_type ?t = ''GALAXY'' then OII_penalty ?t (zcoeff ! j)
                            else replicate (local_nz dtemplate) 0)" .
    show ?thesis using p OII_penalty_spec [OF rect len] by simp
  qed
qed

lemma ex_scan_galaxy:
  "calc_zchi2_v3 np_linalg_solve cp_linalg_solve [1::nat] [ex_target] (ex_dtemplate ''GALAXY'') None False
     = Inr (([[sentinel, 0]], [[[0], [1 / 2]]], [[0, 5 / 2]]), None)"
  by code_simp

lemma ex_rect:
  "\<forall>row\<in>set (template_flux (template (ex_dtemplate ty))).
     length row = length (wave (template (ex_dtemplate ty)))"
  by (simp add: ex_dtemplate_def ex_template_def)

theorem penalty_rule_witness:
  "calc_zchi2_v3 np_linalg_solve cp_linalg_solve [1::nat] [ex_target] (ex_dtemplate ''GALAXY'') None False
     = Inr (([[sentinel, 0]], [[[0], [1 / 2]]], [[0, 5 / 2]]), None) \<and>
   template_type (template (ex_dtemplate ''GALAXY'')) = ''GALAXY'' \<and>
   spec_OIIflux (template (ex_dtemplate ''GALAXY'')) [1 / 2] = - (5 / 2) \<and>
   [[0, 5 / 2]] ! 0 =
     map (\<lambda>c. if spec_OIIflux (template (ex_dtemplate ''GALAXY'')) c < 0
               then - spec_OIIflux (template (ex_dtemplate ''GALAXY'')) c else 0)
         ([[[0], [1 / 2]]] ! 0)"
proof -
  have j: "(0::nat) < length [1::nat]" by simp
  have len: "\<forall>c\<in>set ([[[0], [1 / 2]]] ! 0). length c = length (template_flux (template (ex_dtemplate ''GALAXY'')))"
    by (simp add: ex_dtemplate_def ex_template_def)
  have g: "template_type (template (ex_dtemplate ''GALAXY'')) = ''GALAXY''"
    by (simp add: ex_dtemplate_def ex_template_def)
  have f: "spec_OIIflux (template (ex_dtemplate ''GALAXY'')) [1 / 2] = - (5 / 2)"
    by code_simp
  from penalty_rule [OF ex_rect ex_scan_galaxy j len] g f ex_scan_galaxy
  show ?thesis by blast
qed

subsection \<open>The kernel of the sparse product\<close>

lemma length_concat_rect:
  "\<forall>xs\<in>set xss. length xs = m \<Longrightarrow> length (concat xss) = length xss * m"
  by (induction xss) simp_all

lemma nth_concat_rect:
  assumes "\<forall>xs\<in>set xss. length xs = m" and "i < length xss" and "j < m"
  shows "concat xss ! (i * m + j) = xss ! i ! j"
  using assms
proof (induction xss arbitrary: i)
  case Nil
  then show ?case by simp
next
  case (Cons xs xss)
  have l: "length xs = m" using Cons.prems(1) by simp
  show ?case
  proof (cases i)
    case 0
    then show ?thesis using l Cons.prems(3) by (simp add: nth_append)
  next
    case (Suc k)
    have "concat (xs # xss) ! (i * m + j) = concat xss ! (k * m + j)"
      using Suc l by (simp add: nth_append)
    also have "\<dots> = xss ! k ! j"
      using Cons.IH [of k] Cons.prems Suc by simp
    finally show ?thesis using Suc by simp
  qed
qed

lemma flat_nth:
  assumes shp: "\<forall>B\<in>set a. length B = n \<and> (\<forall>row\<in>set B. length row = nb)"
    and it: "it < length a" and col: "col < n" and ib: "ib < nb"
  shows "flat a ! (it * nb * n + nb * col + ib) = a ! it ! col ! ib"
proof -
  have rows: "\<forall>B\<in>set a. length B = n" using shp by simp
  have widths: "\<forall>row\<in>set (concat a). length row = nb" using shp by auto
  have r: "concat a ! (it * n + col) = a ! it ! col"
    using rows it col by (rule nth_concat_rect)
  have "it * n + col < Suc it * n" using col by simp
  also have "\<dots> \<le> length a * n" using it by (intro mult_le_mono1) simp
  finally have k: "it * n + col < length (concat a)"
    by (simp add: length_concat_rect [OF rows])
  have e: "it * nb * n + nb * col + ib = (it * n + col) * nb + ib"
    by (simp add: algebra_simps)
  have "concat (concat a) ! ((it * n + col) * nb + ib) = concat a ! (it * n + col) ! ib"
    using widths k ib by (rule nth_concat_rect)
  then show ?thesis by (simp add: flat_def e r)
qed

lemma sum_stored:
  "sum_list (map (\<lambda>c. f c * g c) (filter (\<lambda>c. f c \<noteq> 0) cs)) =
   sum_list (map (\<lambda>c. (f c :: rat) * g c) cs)"
  by (induction cs) simp_all

lemma thread_index:
  assumes "icol < n" and "ib < (nb::nat)"
  shows "((it * n + icol) * nb + ib) mod nb = ib"
    and "((it * n + icol) * nb + ib) mod (nb * n) div nb = icol"
    and "((it * n + icol) * nb + ib) div (nb * n) = it"
proof -
  have s: "icol * nb + ib < nb * n"
  proof -
    have "icol * nb + ib < Suc icol * nb" using assms(2) by simp
    also have "\<dots> \<le> n * nb" using assms(1) by (intro mult_le_mono1) simp
    finally show ?thesis by (simp add: mult.commute)
  qed
  have e: "(it * n + icol) * nb + ib = it * (nb * n) + (icol * nb + ib)"
    by (simp add: algebra_simps)
  show "((it * n + icol) * nb + ib) mod nb = ib" using assms(2) by simp
  show "((it * n + icol) * nb + ib) mod (nb * n) div nb = icol"
    unfolding e using s assms(2) by simp
  have pos: "nb * n \<noteq> 0" using s by (cases "nb * n") simp_all
  show "((it * n + icol) * nb + ib) div (nb * n) = it"
    unfolding e by (simp only: div_mult_self3 [OF pos] div_less [OF s] add_0_right)
qed

lemma matmul_entry:
  assumes "length row = length B" and "\<forall>r\<in>set B. length r = nb" and "B \<noteq> []" and "ib < nb"
  shows "map (dot row) (transpose B) ! ib =
         sum_list (map (\<lambda>col. row ! col * B ! col ! ib) [0..<length row])"
proof -
  have t: "transpose B = map (\<lambda>i. map (\<lambda>r. r ! i) B) [0..<nb]"
    using assms(3,2) by (rule transpose_rect)
  have "dot row (map (\<lambda>r. r ! ib) B) =
        sum_list (map (\<lambda>b. row ! b * map (\<lambda>r. r ! ib) B ! b) [0..<length row])"
    by (rule dot_nth) (simp add: assms(1))
  also have "\<dots> = sum_list (map (\<lambda>col. row ! col * B ! col ! ib) [0..<length row])"
    by (rule arg_cong [where f = sum_list]) (simp add: assms(1))
  finally show ?thesis using assms(4) by (simp add: t)
qed

lemma kernel_entry:
  assumes sq: "\<forall>row\<in>set R. length row = length R"
    and shp: "\<forall>B\<in>set a. length B = length R \<and> (\<forall>row\<in>set B. length row = nb)"
    and it: "it < length a" and icol: "icol < length R" and ib: "ib < nb"
  shows "batch_dot_product_sparse_kernel R (flat a) (length R) nb ((it * length R + icol) * nb + ib) =
         matmul R (a ! it) ! icol ! ib"
proof -
  let ?n = "length R"
  let ?row = "R ! icol"
  let ?B = "a ! it"
  have lr: "length ?row = ?n" using sq icol by simp
  have "?B \<in> set a" using it by simp
  then have B: "length ?B = ?n" "\<forall>r\<in>set ?B. length r = nb" using shp by blast+
  have Bne: "?B \<noteq> []" using B(1) icol by auto
  have "batch_dot_product_sparse_kernel R (flat a) ?n nb ((it * ?n + icol) * nb + ib) =
        sum_list (map (\<lambda>col. ?row ! col * flat a ! (it * nb * ?n + nb * col + ib))
                      (filter (\<lambda>col. ?row ! col \<noteq> 0) [0..<?n]))"
    using ib by (simp add: batch_dot_product_sparse_kernel_def Let_def thread_index [OF icol ib] lr)
  also have "\<dots> = sum_list (map (\<lambda>col. ?row ! col * flat a ! (it * nb * ?n + nb * col + ib)) [0..<?n])"
    by (rule sum_stored)
  also have "\<dots> = sum_list (map (\<lambda>col. ?row ! col * ?B ! col ! ib) [0..<?n])"
    by (rule arg_cong [where f = sum_list]) (simp add: flat_nth [OF shp it _ ib])
  also have "\<dots> = map (dot ?row) (transpose ?B) ! ib"
    using matmul_entry [of ?row ?B nb ib] lr B Bne ib by simp
  also have "\<dots> = matmul R ?B ! icol ! ib"
    using icol by (simp add: matmul_def)
  finally show ?thesis .
qed

lemma blocks_cover: "n \<le> (n + block_size - 1) div block_size * block_size"
proof -
  define p where "p = (n + block_size - 1) div block_size * block_size"
  define r where "r = (n + block_size - 1) mod block_size"
  have "p + r = n + block_size - 1" by (simp add: p_def r_def)
  moreover have "r < block_size" by (simp add: r_def block_size_def)
  ultimately have "n \<le> p" by simp
  then show ?thesis by (simp only: p_def)
qed

lemma launch_product:
  assumes ne: "R \<noteq> []"
    and sq: "\<forall>row\<in>set R. length row = length R"
    and shp: "\<forall>B\<in>set a. length B = length R \<and> (\<forall>row\<in>set B. length row = nb)"
  shows "batch_dot_product_sparse_launch R a = map (matmul R) a"
proof (cases a)
  case Nil
  then show ?thesis by (simp add: batch_dot_product_sparse_launch_def)
next
  case (Cons B0 a')
  let ?n = "length R"
  have "length B0 = ?n" and w0: "\<forall>row\<in>set B0. length row = nb" using shp Cons by simp_all
  then obtain r0 B0' where B0: "B0 = r0 # B0'" using ne by (cases B0) auto
  have nb: "shape2 a = nb" using Cons B0 w0 by (simp add: shape2_def)
  have rows: "\<forall>B\<in>set a. length B = ?n" using shp by simp
  have widths: "\<forall>row\<in>set (concat a). length row = nb" using shp by auto
  have size: "length (flat a) = length a * ?n * nb"
    by (simp add: flat_def length_concat_rect [OF widths] length_concat_rect [OF rows])
  have launched: "(it * ?n + icol) * nb + ib < (length (flat a) + block_size - 1) div block_size * block_size"
    if "it < length a" "icol < ?n" "ib < nb" for it icol ib
  proof -
    have "(it * ?n + icol) * nb + ib < Suc (it * ?n + icol) * nb" using that(3) by simp
    also have "\<dots> \<le> (Suc it * ?n) * nb" using that(2) by (intro mult_le_mono1) simp
    also have "\<dots> \<le> (length a * ?n) * nb" using that(1) by (intro mult_le_mono1) simp
    finally have "(it * ?n + icol) * nb + ib < length (flat a)" by (simp add: size)
    then show ?thesis using blocks_cover [of "length (flat a)"] by simp
  qed
  have width: "length (transpose (a ! it)) = nb" if "it < length a" for it
  proof -
    have "a ! it \<in> set a" using that by simp
    then have "length (a ! it) = ?n" "\<forall>r\<in>set (a ! it). length r = nb" using shp by blast+
    moreover from this ne have "a ! it \<noteq> []" by auto
    ultimately show ?thesis using transpose_rect [of "a ! it" nb] by simp
  qed
  show ?thesis
  proof (rule nth_equalityI)
    show "length (batch_dot_product_sparse_launch R a) = length (map (matmul R) a)"
      by (simp add: batch_dot_product_sparse_launch_def Let_def)
    fix it assume "it < length (batch_dot_product_sparse_launch R a)"
    then have it: "it < length a" by (simp add: batch_dot_product_sparse_launch_def Let_def)
    show "batch_dot_product_sparse_launch R a ! it = map (matmul R) a ! it"
    proof (rule nth_equalityI)
      show "length (batch_dot_product_sparse_launch R a ! it) = length (map (matmul R) a ! it)"
        using it by (simp add: batch_dot_product_sparse_launch_def Let_def matmul_def)
      fix icol assume "icol < length (batch_dot_product_sparse_launch R a ! it)"
      then have icol: "icol < ?n" using it by (simp add: batch_dot_product_sparse_launch_def Let_def)
      show "batch_dot_product_sparse_launch R a ! it ! icol = map (matmul R) a ! it ! icol"
      proof (rule nth_equalityI)
        show "length (batch_dot_product_sparse_launch R a ! it ! icol) =
              length (map (matmul R) a ! it ! icol)"
          using it icol by (simp add: batch_dot_product_sparse_launch_def Let_def matmul_def nb width)
        fix ib assume "ib < length (batch_dot_product_sparse_launch R a ! it ! icol)"
        then have ib: "ib < nb"
          using it icol by (simp add: batch_dot_product_sparse_launch_def Let_def nb)
        show "batch_dot_product_sparse_launch R a ! it ! icol ! ib =
              map (matmul R) a ! it ! icol ! ib"
          using it icol ib launched [OF it icol ib] kernel_entry [OF sq shp it icol ib]
          by (simp add: batch_dot_product_sparse_launch_def Let_def nb)
      qed
    qed
  qed
qed

subsection \<open>The two execution paths\<close>

lemma stacked_Tbs:
  assumes "spectra \<noteq> []" and ds: "device_shaped spectra td nb"
  shows "batch_dot_product_sparse_gpu spectra (\<lambda>key. map (\<lambda>d. d key) td) =
         map (dot_product_sparse_one spectra) td"
proof -
  let ?X = "map (\<lambda>s. map (matmul (Rcsr s)) (map (\<lambda>d. d (wavehash s)) td)) spectra"
  have k: "batch_dot_product_sparse_launch (Rcsr s) (map (\<lambda>d. d (wavehash s)) td) =
           map (matmul (Rcsr s)) (map (\<lambda>d. d (wavehash s)) td)" if "s \<in> set spectra" for s
  proof (rule launch_product)
    from ds that have s: "Rcsr s \<noteq> []" "list_all (\<lambda>row. length row = length (Rcsr s)) (Rcsr s)"
      "list_all (\<lambda>d. length (d (wavehash s)) = length (Rcsr s) \<and>
                      list_all (\<lambda>row. length row = nb) (d (wavehash s))) td"
      by (simp_all add: device_shaped_def list_all_iff)
    show "Rcsr s \<noteq> []" by (rule s(1))
    show "\<forall>row\<in>set (Rcsr s). length row = length (Rcsr s)" using s(2) by (simp add: list_all_iff)
    show "\<forall>B\<in>set (map (\<lambda>d. d (wavehash s)) td).
            length B = length (Rcsr s) \<and> (\<forall>row\<in>set B. length row = nb)"
      using s(3) by (auto simp: list_all_iff)
  qed
  have g: "batch_dot_product_sparse_gpu spectra (\<lambda>key. map (\<lambda>d. d key) td) = cp_hstack ?X"
    using k by (simp add: batch_dot_product_sparse_gpu_def cong: map_cong)
  have ne: "?X \<noteq> []" using assms by simp
  have rect: "\<forall>row\<in>set ?X. length row = length td" by simp
  have t: "transpose ?X = map (\<lambda>i. map (\<lambda>row. row ! i) ?X) [0..<length td]"
    using ne rect by (rule transpose_rect)
  have "map concat (transpose ?X) = map (dot_product_sparse_one spectra) td"
  proof (rule nth_equalityI)
    show "length (map concat (transpose ?X)) = length (map (dot_product_sparse_one spectra) td)"
      unfolding t by simp
    fix i assume "i < length (map concat (transpose ?X))"
    then have i: "i < length td" unfolding t by simp
    have "map (\<lambda>row. row ! i) ?X = map (\<lambda>s. matmul (Rcsr s) ((td ! i) (wavehash s))) spectra"
      using i by (simp add: comp_def)
    then have "concat (map (\<lambda>row. row ! i) ?X) = dot_product_sparse_one spectra (td ! i)"
      by (simp only: dot_product_sparse_one_def)
    then show "map concat (transpose ?X) ! i = map (dot_product_sparse_one spectra) td ! i"
      unfolding t using i by (simp add: comp_def)
  qed
  then show ?thesis by (simp add: g cp_hstack_def)
qed

lemma scale_rows_rect:
  assumes "length weights = length Tb" and "\<forall>row\<in>set Tb. length row = nb"
  shows "length (scale_rows weights Tb) = length Tb"
    and "\<forall>row\<in>set (scale_rows weights Tb). length row = nb"
  using assms by (auto simp: scale_rows_def dest!: set_zip_rightD)

lemma column_scaled:
  assumes "length weights = length Tb" and "\<forall>row\<in>set Tb. length row = nb" and "q < nb"
  shows "map (\<lambda>row. row ! q) (scale_rows weights Tb) =
         map (\<lambda>r. weights ! r * Tb ! r ! q) [0..<length Tb]"
proof (rule nth_equalityI)
  show "length (map (\<lambda>row. row ! q) (scale_rows weights Tb)) =
        length (map (\<lambda>r. weights ! r * Tb ! r ! q) [0..<length Tb])"
    using assms(1) by (simp add: scale_rows_def)
  fix r assume "r < length (map (\<lambda>row. row ! q) (scale_rows weights Tb))"
  then have r: "r < length Tb" using assms(1) by (simp add: scale_rows_def)
  then have "length (Tb ! r) = nb" using assms(2) by simp
  then show "map (\<lambda>row. row ! q) (scale_rows weights Tb) ! r =
        map (\<lambda>r. weights ! r * Tb ! r ! q) [0..<length Tb] ! r"
    using r assms(1,3) by (simp add: scale_rows_def)
qed

lemma normal_entry:
  assumes "length weights = length Tb" and "\<forall>row\<in>set Tb. length row = nb" and "q < nb"
  shows "dot (map (\<lambda>row. row ! p) Tb) (map (\<lambda>row. row ! q) (scale_rows weights Tb)) =
         sum_list (map (\<lambda>r. Tb ! r ! p * (weights ! r * Tb ! r ! q)) [0..<length Tb])"
proof -
  have "dot (map (\<lambda>row. row ! p) Tb) (map (\<lambda>r. weights ! r * Tb ! r ! q) [0..<length Tb]) =
        sum_list (map (\<lambda>b. map (\<lambda>row. row ! p) Tb ! b *
                            map (\<lambda>r. weights ! r * Tb ! r ! q) [0..<length Tb] ! b)
                      [0..<length (map (\<lambda>row. row ! p) Tb)])"
    by (rule dot_nth) simp
  also have "\<dots> = sum_list (map (\<lambda>r. Tb ! r ! p * (weights ! r * Tb ! r ! q)) [0..<length Tb])"
    by (rule arg_cong [where f = sum_list]) simp
  finally show ?thesis unfolding column_scaled [OF assms] .
qed

lemma normal_entry_sym:
  assumes "length weights = length Tb" and "\<forall>row\<in>set Tb. length row = nb"
    and "p < nb" and "q < nb"
  shows "dot (map (\<lambda>row. row ! p) Tb) (map (\<lambda>row. row ! q) (scale_rows weights Tb)) =
         dot (map (\<lambda>row. row ! q) Tb) (map (\<lambda>row. row ! p) (scale_rows weights Tb))"
proof -
  have m: "map (\<lambda>r. Tb ! r ! p * (weights ! r * Tb ! r ! q)) [0..<length Tb] =
        map (\<lambda>r. Tb ! r ! q * (weights ! r * Tb ! r ! p)) [0..<length Tb]"
    by (simp add: mult.left_commute mult.commute)
  show ?thesis
    by (simp only: normal_entry [OF assms(1,2,4), of p] normal_entry [OF assms(1,2,3), of q] m)
qed

lemma device_M:
  assumes ne: "Tb \<noteq> []" and len: "length weights = length Tb"
    and rect: "\<forall>row\<in>set Tb. length row = nb"
  shows "map (\<lambda>bcol. map (\<lambda>arow. dot arow bcol) (transpose Tb))
             (transpose (scale_rows weights Tb)) = normal_M weights Tb"
proof -
  have sne: "scale_rows weights Tb \<noteq> []" using ne scale_rows_rect(1) [OF len rect] by auto
  have A: "transpose Tb = map (\<lambda>i. map (\<lambda>row. row ! i) Tb) [0..<nb]"
    using ne rect by (rule transpose_rect)
  have B: "transpose (scale_rows weights Tb) =
           map (\<lambda>i. map (\<lambda>row. row ! i) (scale_rows weights Tb)) [0..<nb]"
    using sne scale_rows_rect(2) [OF len rect] by (rule transpose_rect)
  show ?thesis
    unfolding normal_M_def matmul_def A B
    by (auto simp: comp_def intro!: normal_entry_sym [OF len rect])
qed



lemma py_for_map:
  "\<forall>x\<in>set xs. f x = Inr (g x) \<Longrightarrow> py_for f xs = Inr (map g xs)"
  by (induction xs) simp_all

lemma chi2_square:
  "dot (map2 (\<lambda>f x. (f - x) * (f - x)) fluxes m) weights =
   dot (map (\<lambda>x. x ^ 2) (map2 (-) fluxes m)) weights"
proof -
  have h: "map2 (\<lambda>f x. (f - x) * (f - x)) fluxes m = map (\<lambda>x. x ^ 2) (map2 (-) fluxes m)"
    by (simp add: power2_eq_square case_prod_beta comp_def)
  show ?thesis by (simp only: h)
qed

lemma well_shaped_nth:
  assumes "well_shaped spectra td weights nb" and "i < length td"
  shows "design spectra td i \<noteq> []" and "length weights = length (design spectra td i)"
    and "\<forall>row\<in>set (design spectra td i). length row = nb"
proof -
  have a: "length (design spectra td i) = length weights \<and>
           list_all (\<lambda>row. length row = nb) (design spectra td i)"
    using assms by (simp add: well_shaped_def list_all_iff)
  have w: "weights \<noteq> []" using assms(1) by (simp add: well_shaped_def)
  show "length weights = length (design spectra td i)" using a by simp
  then show "design spectra td i \<noteq> []" using w by auto
  show "\<forall>row\<in>set (design spectra td i). length row = nb" using a by (simp add: list_all_iff)
qed

lemma designs: "map (dot_product_sparse_one spectra) td = map (design spectra td) [0..<length td]"
  by (rule nth_equalityI) (simp_all add: design_def)

lemma device_all_M:
  assumes "well_shaped spectra td weights nb"
  shows "calc_batch_dot_product_3d3d_gpu (map (design spectra td) [0..<length td])
           (map (scale_rows weights) (map (design spectra td) [0..<length td])) True =
         map (design_M spectra td weights) [0..<length td]"
proof (rule nth_equalityI)
  show "length (calc_batch_dot_product_3d3d_gpu (map (design spectra td) [0..<length td])
           (map (scale_rows weights) (map (design spectra td) [0..<length td])) True) =
        length (map (design_M spectra td weights) [0..<length td])"
    by (simp add: calc_batch_dot_product_3d3d_gpu_def)
  fix i
  assume "i < length (calc_batch_dot_product_3d3d_gpu (map (design spectra td) [0..<length td])
           (map (scale_rows weights) (map (design spectra td) [0..<length td])) True)"
  then have i: "i < length td" by (simp add: calc_batch_dot_product_3d3d_gpu_def)
  from device_M [OF well_shaped_nth [OF assms i]]
  show "calc_batch_dot_product_3d3d_gpu (map (design spectra td) [0..<length td])
           (map (scale_rows weights) (map (design spectra td) [0..<length td])) True ! i =
        map (design_M spectra td weights) [0..<length td] ! i"
    using i by (simp add: calc_batch_dot_product_3d3d_gpu_def design_M_def)
qed

lemma batch_device_result:
  assumes ws: "well_shaped spectra td weights nb"
    and ds: "device_shaped spectra td nb"
    and cp: "cp_solve (map (design_M spectra td weights) [0..<length td])
               (map (design_y spectra td wflux) [0..<length td]) = Inr cs"
    and l: "length cs = length td"
  shows "calc_zchi2_batch_v3 np_solve cp_solve spectra (Stacked (\<lambda>key. map (\<lambda>d. d key) td))
           weights fluxes wflux nz nb True =
         Inr (map (\<lambda>i. chi2_of weights fluxes (design spectra td i) (cs ! i)) [0..<length td], cs)"
proof -
  have sp: "spectra \<noteq> []" using ws by (simp add: well_shaped_def)
  have Tbs: "batch_dot_product_sparse spectra (\<lambda>key. map (\<lambda>d. d key) td) nz True =
             map (design spectra td) [0..<length td]"
    using stacked_Tbs [OF sp ds] by (simp add: batch_dot_product_sparse_def designs)
  have y: "map (\<lambda>Tb. matvec (transpose Tb) wflux) (map (design spectra td) [0..<length td]) =
           map (design_y spectra td wflux) [0..<length td]"
    by (simp add: design_y_def normal_y_def)
  have chi: "map (\<lambda>m. dot (map2 (\<lambda>f x. (f - x) * (f - x)) fluxes m) weights)
               (calc_batch_dot_product_3d2d (map (design spectra td) [0..<length td]) cs True) =
             map (\<lambda>i. chi2_of weights fluxes (design spectra td i) (cs ! i)) [0..<length td]"
    using l
    by (intro nth_equalityI)
      (simp_all add: calc_batch_dot_product_3d2d_def calc_batch_dot_product_3d2d_gpu_def
        chi2_square chi2_of_def)
  show ?thesis
    unfolding calc_zchi2_batch_v3_def
    by (simp add: Tbs device_all_M [OF ws] y cp chi Let_def del: map_map)
qed

lemma batch_host_result:
  assumes host: "\<forall>i<length td. np_solve (design_M spectra td weights i) (design_y spectra td wflux i)
                   = Inr (cs ! i)"
    and l: "length cs = length td"
  shows "calc_zchi2_batch_v3 np_solve cp_solve spectra (PerRedshift td)
           weights fluxes wflux (length td) nb False =
         Inr (map (\<lambda>i. chi2_of weights fluxes (design spectra td i) (cs ! i)) [0..<length td], cs)"
proof -
  have "\<forall>i\<in>set [0..<length td]. zchi2_host_step np_solve spectra td weights fluxes wflux nb i =
          Inr (chi2_of weights fluxes (design spectra td i) (cs ! i), cs ! i)"
    using host host_step_solved by simp
  from py_for_map [OF this]
  have "py_for (zchi2_host_step np_solve spectra td weights fluxes wflux nb) [0..<length td] =
        Inr (map (\<lambda>i. (chi2_of weights fluxes (design spectra td i) (cs ! i), cs ! i)) [0..<length td])" .
  moreover have "map (\<lambda>i. cs ! i) [0..<length td] = cs" using l by (metis map_nth)
  ultimately show ?thesis by (simp add: batch_host_unfold comp_def)
qed

lemma batch_paths_agree:
  assumes ws: "well_shaped spectra td weights nb"
    and ds: "device_shaped spectra td nb"
    and sa: "solvers_agree np_solve cp_solve spectra td weights wflux"
  shows "calc_zchi2_batch_v3 np_solve cp_solve spectra (Stacked (\<lambda>key. map (\<lambda>d. d key) td))
           weights fluxes wflux (length td) nb True =
         calc_zchi2_batch_v3 np_solve cp_solve spectra (PerRedshift td)
           weights fluxes wflux (length td) nb False"
proof -
  let ?hs = "host_solutions np_solve spectra td weights wflux"
  let ?cs = "map projr ?hs"
  have l: "length ?cs = length td" by (simp add: host_solutions_def)
  have cp: "cp_solve (map (design_M spectra td weights) [0..<length td])
               (map (design_y spectra td wflux) [0..<length td]) = Inr ?cs"
    using sa by (simp add: solvers_agree_def)
  have host: "\<forall>i<length td. np_solve (design_M spectra td weights i) (design_y spectra td wflux i)
                   = Inr (?cs ! i)"
  proof (intro allI impI)
    fix i assume i: "i < length td"
    have "\<not> isl (?hs ! i)" using sa i by (simp add: solvers_agree_def list_all_length host_solutions_def)
    then have "?hs ! i = Inr (projr (?hs ! i))" by (cases "?hs ! i") simp_all
    then show "np_solve (design_M spectra td weights i) (design_y spectra td wflux i) = Inr (?cs ! i)"
      using i by (simp add: host_solutions_def)
  qed
  show ?thesis
    using batch_device_result [where cp_solve = cp_solve and np_solve = np_solve
        and fluxes = fluxes and nz = "length td", OF ws ds cp l]
      batch_host_result [where cp_solve = cp_solve and np_solve = np_solve
        and fluxes = fluxes and nb = nb, OF host l]
    by simp
qed



lemma target_paths_agree:
  assumes a: "target_fit_agrees np_solve cp_solve dtemplate tg"
    and nz: "length (local_data (local dtemplate)) = local_nz dtemplate"
  shows "calc_zchi2_v3_target np_solve cp_solve dtemplate (v3_tdata dtemplate True) True q tg =
         calc_zchi2_v3_target np_solve cp_solve dtemplate (v3_tdata dtemplate False) False q tg"
proof -
  obtain w f wf where sd: "spectral_data (target_spectra tg) = (w, f, wf)"
    by (cases "spectral_data (target_spectra tg)")
  show ?thesis
  proof (cases "sum_list w = 0")
    case True
    then have "sum_list (target_weights tg) = 0" using sd by (simp add: target_weights_def)
    then show ?thesis by (simp add: zero_weight_target)
  next
    case False
    let ?td = "local_data (local dtemplate)"
    from a sd False have ws: "well_shaped (target_spectra tg) ?td w (nbasis (template dtemplate))"
      and ds: "device_shaped (target_spectra tg) ?td (nbasis (template dtemplate))"
      and sa: "solvers_agree np_solve cp_solve (target_spectra tg) ?td w wf"
      by (simp_all add: target_fit_agrees_def)
    have l: "length (local_redshifts (local dtemplate)) = length ?td"
      using nz by (simp add: local_nz_def)
    from batch_paths_agree [OF ws ds sa, of f]
    have "calc_zchi2_batch_v3 np_solve cp_solve (target_spectra tg) (v3_tdata dtemplate True)
            w f wf (length (local_redshifts (local dtemplate))) (nbasis (template dtemplate)) True =
          calc_zchi2_batch_v3 np_solve cp_solve (target_spectra tg) (v3_tdata dtemplate False)
            w f wf (length (local_redshifts (local dtemplate))) (nbasis (template dtemplate)) False"
      by (simp add: v3_tdata_def l)
    then show ?thesis using sd False by (simp add: calc_zchi2_v3_target_def)
  qed
qed

lemma target_loop_cong:
  assumes "\<forall>j\<in>set js. j < length td \<longrightarrow> (\<forall>q. body1 q (td ! j) = body2 q (td ! j))"
  shows "target_loop body1 td js q = target_loop body2 td js q"
  using assms
proof (induction js arbitrary: q)
  case Nil
  then show ?case by simp
next
  case (Cons j js)
  show ?case
  proof (cases "length td \<le> j")
    case True
    then show ?thesis by simp
  next
    case False
    then have b: "body1 q (td ! j) = body2 q (td ! j)" using Cons.prems by simp
    have r: "target_loop body1 td js q' = target_loop body2 td js q'" for q'
      using Cons.IH Cons.prems by simp
    show ?thesis using False b r by (simp split: sum.splits prod.splits)
  qed
qed

text \<open>
  Claim C1, as the code has it. In exact arithmetic, for every set of targets and every
  template with a non-empty local grid: when, for every target with weight, the shapes
  fit, the resolution matrices are square and not empty, the template has at least one
  basis vector, the host solver solves every system (none is singular) and the device
  solver returns the same solutions for the batch, the GPU path and the CPU path of the
  scan return the same result: equal chi-squared, coefficient and penalty arrays (hence
  the same redshift of minimal chi-squared), or the same exception. Both paths apply the
  same operations in the same order, the same zero-weight short cut and the same [OII]
  penalty. The sentinel for a singular system is written on the CPU path only.
\<close>

theorem paths_agree:
  assumes ne: "local_data (local dtemplate) \<noteq> []"
    and nz: "length (local_data (local dtemplate)) = local_nz dtemplate"
    and fit: "list_all (target_fit_agrees np_solve cp_solve dtemplate)
                (take (length target_ids) target_data)"
  shows "calc_zchi2_v3 np_solve cp_solve target_ids target_data dtemplate progress True =
         calc_zchi2_v3 np_solve cp_solve target_ids target_data dtemplate progress False"
proof -
  let ?b1 = "calc_zchi2_v3_target np_solve cp_solve dtemplate (v3_tdata dtemplate True) True"
  let ?b2 = "calc_zchi2_v3_target np_solve cp_solve dtemplate (v3_tdata dtemplate False) False"
  have "\<forall>j\<in>set [0..<length target_ids]. j < length target_data \<longrightarrow>
          (\<forall>q. ?b1 q (target_data ! j) = ?b2 q (target_data ! j))"
  proof (intro ballI impI allI)
    fix j q assume "j \<in> set [0..<length target_ids]" and jt: "j < length target_data"
    then have j: "j < length target_ids" by simp
    have "target_fit_agrees np_solve cp_solve dtemplate (take (length target_ids) target_data ! j)"
      using fit j jt by (simp add: list_all_length)
    then have "target_fit_agrees np_solve cp_solve dtemplate (target_data ! j)" using j by simp
    then show "?b1 q (target_data ! j) = ?b2 q (target_data ! j)"
      using nz by (rule target_paths_agree)
  qed
  then have "target_loop ?b1 target_data [0..<length target_ids] progress =
             target_loop ?b2 target_data [0..<length target_ids] progress"
    by (rule target_loop_cong)
  then show ?thesis using ne by (simp add: calc_zchi2_v3_def v3_tdata_def Let_def)
qed

theorem paths_agree_witness:
  "local_data (local (ex_regular_dtemplate ''GALAXY'')) \<noteq> [] \<and>
   length (local_data (local (ex_regular_dtemplate ''GALAXY''))) =
     local_nz (ex_regular_dtemplate ''GALAXY'') \<and>
   list_all (target_fit_agrees np_linalg_solve cp_linalg_solve (ex_regular_dtemplate ''GALAXY''))
     (take (length [1::nat, 2]) [ex_target, ex_dark_target]) \<and>
   calc_zchi2_v3 np_linalg_solve cp_linalg_solve [1::nat, 2] [ex_target, ex_dark_target]
     (ex_regular_dtemplate ''GALAXY'') None True =
   calc_zchi2_v3 np_linalg_solve cp_linalg_solve [1::nat, 2] [ex_target, ex_dark_target]
     (ex_regular_dtemplate ''GALAXY'') None False \<and>
   calc_zchi2_v3 np_linalg_solve cp_linalg_solve [1::nat, 2] [ex_target, ex_dark_target]
     (ex_regular_dtemplate ''GALAXY'') None False =
   Inr (([[0, 0], [sentinel, sentinel]], [[[1], [1 / 2]], [[0], [0]]], [[5, 5 / 2], [0, 0]]), None)"
proof -
  have ne: "local_data (local (ex_regular_dtemplate ''GALAXY'')) \<noteq> []"
    by (simp add: ex_regular_dtemplate_def)
  have nz: "length (local_data (local (ex_regular_dtemplate ''GALAXY''))) =
     local_nz (ex_regular_dtemplate ''GALAXY'')"
    by (simp add: ex_regular_dtemplate_def local_nz_def)
  have fit: "list_all (target_fit_agrees np_linalg_solve cp_linalg_solve (ex_regular_dtemplate ''GALAXY''))
     (take (length [1::nat, 2]) [ex_target, ex_dark_target])"
    by code_simp
  have v: "calc_zchi2_v3 np_linalg_solve cp_linalg_solve [1::nat, 2] [ex_target, ex_dark_target]
     (ex_regular_dtemplate ''GALAXY'') None False =
   Inr (([[0, 0], [sentinel, sentinel]], [[[1], [1 / 2]], [[0], [0]]], [[5, 5 / 2], [0, 0]]), None)"
    by code_simp
  from paths_agree [OF ne nz fit, of None] ne nz fit v show ?thesis by blast
qed

text \<open>
  Claim C1 as stated fails at a singular redshift: the CPU path returns \<open>9e99\<close> there
  and the GPU path does not (with any coefficients from the device solver its
  chi-squared is \<open>1\<close> in this example, see \<open>device_no_sentinel\<close>). The helper
  \<open>linalg_solve_batch\<close> flags the singular system on the host and never on the GPU.
  It also fails, with no singular system, for a resampling matrix that is not square:
  with one row and two columns the kernel reads the second template from the second
  entry of the flat array, and the coefficients of the two paths differ.
\<close>

theorem paths_differ_singular:
  "calc_zchi2_v3 np_linalg_solve cp_linalg_solve [1::nat] [ex_target] (ex_dtemplate ''GALAXY'') None False
     = Inr (([[sentinel, 0]], [[[0], [1 / 2]]], [[0, 5 / 2]]), None) \<and>
   calc_zchi2_v3 np_linalg_solve cp_linalg_solve [1::nat] [ex_target] (ex_dtemplate ''GALAXY'') None True
     = Inr (([[1, 0]], [[[0], [1 / 2]]], [[0, 5 / 2]]), None) \<and>
   linalg_solve_batch np_linalg_solve cp_linalg_solve [[[0]], [[4]]] [[0], [2]] False
     = Inr ([[0], [1 / 2]], [True, False]) \<and>
   linalg_solve_batch np_linalg_solve cp_linalg_solve [[[0]], [[4]]] [[0], [2]] True
     = Inr ([[0], [1 / 2]], [False, False]) \<and>
   calc_zchi2_v3 np_linalg_solve cp_linalg_solve [3::nat] [ex_wide_target] (ex_wide_dtemplate ''GALAXY'')
     None False
     = Inr (([[0, 0]], [[[1 / 11], [1 / 1100]]], [[5 / 11, 5 / 1100]]), None) \<and>
   calc_zchi2_v3 np_linalg_solve cp_linalg_solve [3::nat] [ex_wide_target] (ex_wide_dtemplate ''GALAXY'')
     None True
     = Inr (([[0, 0]], [[[1 / 11], [1 / 110]]], [[5 / 11, 5 / 110]]), None)"
  by code_simp

section \<open>Properties of the merge\<close>

subsection \<open>Dictionaries\<close>

lemma dict_get_set: "dict_get (dict_set k v d) k' = (if k' = k then Some v else dict_get d k')"
  by (induction d) (auto simp: dict_get_def)

lemma dict_set_new: "k \<notin> set (dict_keys d) \<Longrightarrow> dict_set k v d = d @ [(k, v)]"
  by (induction d) (auto simp: dict_keys_def)

lemma dict_get_pairs:
  assumes "distinct (map f xs)" and "x \<in> set xs"
  shows "dict_get (map (\<lambda>s. (f s, g s)) xs) (f x) = Some (g x)"
  using assms
proof (induction xs)
  case Nil
  then show ?case by simp
next
  case (Cons a xs)
  show ?case
  proof (cases "x = a")
    case True
    then show ?thesis by (simp add: dict_get_def)
  next
    case False
    then have x: "x \<in> set xs" using Cons.prems(2) by simp
    have "f a \<notin> f ` set xs" using Cons.prems(1) by simp
    then have "f x \<noteq> f a" using x by (metis imageI)
    moreover have "dict_get (map (\<lambda>s. (f s, g s)) xs) (f x) = Some (g x)"
      using Cons.IH Cons.prems(1) x by simp
    ultimately show ?thesis by (simp add: dict_get_def)
  qed
qed

lemma dict_default_set:
  "dict_default (dict_set k v d) k' = (if k' = k then v else dict_default d k')"
  by (simp add: dict_default_def dict_get_set)

lemma store_rows_default:
  assumes "distinct (map fst trs)"
  shows "dict_default (store_rows p trs d) tid =
         (case map_of trs tid of
            None \<Rightarrow> dict_default d tid
          | Some row \<Rightarrow> dict_set p row (dict_default d tid))"
  using assms
proof (induction trs arbitrary: d)
  case Nil
  then show ?case by simp
next
  case (Cons tr trs)
  obtain t r where tr: "tr = (t, r)" by (cases tr)
  let ?d = "dict_set t (dict_set p r (dict_default d t)) d"
  have d: "distinct (map fst trs)" and nt: "t \<notin> fst ` set trs" using Cons.prems tr by auto
  have s: "store_rows p (tr # trs) d = store_rows p trs ?d"
    by (simp add: tr dict_default_def)
  have ih: "dict_default (store_rows p trs ?d) tid =
         (case map_of trs tid of
            None \<Rightarrow> dict_default ?d tid
          | Some row \<Rightarrow> dict_set p row (dict_default ?d tid))"
    using d by (rule Cons.IH)
  show ?case
  proof (cases "tid = t")
    case True
    have "map_of trs t = None" using nt by (simp add: map_of_eq_None_iff)
    then show ?thesis using s ih True tr by (simp add: dict_default_set)
  next
    case False
    then show ?thesis using s ih tr by (simp add: dict_default_set split: option.splits)
  qed
qed

lemma store_rows_nth:
  assumes dt: "distinct tids" and i: "i < length tids" and l: "length rows = length tids"
  shows "dict_default (store_rows p (zip tids rows) d) (tids ! i) =
         dict_set p (rows ! i) (dict_default d (tids ! i))"
proof -
  have "distinct (map fst (zip tids rows))" using dt l by simp
  moreover have "map_of (zip tids rows) (tids ! i) = Some (rows ! i)"
    using l dt i by (intro map_of_zip_nth) simp_all
  ultimately show ?thesis by (simp add: store_rows_default)
qed

lemma foldl_store:
  assumes dt: "distinct tids" and i: "i < length tids"
    and di: "distinct (map local_index visits)"
    and l: "\<forall>sl\<in>set visits. length (rows sl) = length tids"
  shows "dict_default (foldl (\<lambda>d sl. store_rows (local_index sl) (zip tids (rows sl)) d) [] visits)
            (tids ! i) =
         map (\<lambda>sl. (local_index sl, rows sl ! i)) visits"
  using di l
proof (induction visits rule: rev_induct)
  case Nil
  then show ?case by (simp add: dict_default_def dict_get_def)
next
  case (snoc sl vs)
  let ?D = "foldl (\<lambda>d sl. store_rows (local_index sl) (zip tids (rows sl)) d) [] vs"
  have ih: "dict_default ?D (tids ! i) = map (\<lambda>sl. (local_index sl, rows sl ! i)) vs"
    using snoc by simp
  have len: "length (rows sl) = length tids" using snoc.prems(2) by simp
  have new: "local_index sl \<notin> set (dict_keys (map (\<lambda>sl. (local_index sl, rows sl ! i)) vs))"
    using snoc.prems(1) by (auto simp: dict_keys_def)
  have "dict_default (store_rows (local_index sl) (zip tids (rows sl)) ?D) (tids ! i) =
        dict_set (local_index sl) (rows sl ! i) (dict_default ?D (tids ! i))"
    using dt i len by (rule store_rows_nth)
  also have "\<dots> = map (\<lambda>sl. (local_index sl, rows sl ! i)) vs @ [(local_index sl, rows sl ! i)]"
    unfolding ih using new by (rule dict_set_new)
  finally show ?case by simp
qed

lemma insort_map: "insort (f x) (map f ys) = map f (insort_key f x ys)"
  by (induction ys) simp_all

lemma sort_map: "sort (map f xs) = map f (sort_key f xs)"
  by (induction xs) (simp_all add: insort_map)

lemma concat_slices_pairs:
  assumes "distinct (map local_index visits)"
  shows "concat_slices (map (\<lambda>sl. (local_index sl, r sl)) visits) = concat (map r (by_index visits))"
proof -
  let ?m = "map (\<lambda>sl. (local_index sl, r sl)) visits"
  have k: "sort (dict_keys ?m) = map local_index (by_index visits)"
    by (simp add: dict_keys_def comp_def sort_map by_index_def)
  have "map (\<lambda>p. case dict_get ?m p of None \<Rightarrow> [] | Some x \<Rightarrow> x) (map local_index (by_index visits))
        = map r (by_index visits)"
  proof -
    have "(case dict_get ?m (local_index sl) of None \<Rightarrow> [] | Some x \<Rightarrow> x) = r sl"
      if "sl \<in> set (by_index visits)" for sl
    proof -
      have "sl \<in> set visits" using that by (simp add: by_index_def)
      then show ?thesis using dict_get_pairs [OF assms, of sl r] by simp
    qed
    then show ?thesis by simp
  qed
  then show ?thesis by (simp only: concat_slices_def k)
qed

lemma merge_slices_get:
  "dict_get (merge_slices d) tid = map_option concat_slices (dict_get d tid)"
  by (induction d) (auto simp: merge_slices_def dict_get_def)

lemma merged_ring:
  assumes dt: "distinct tids" and i: "i < length tids"
    and di: "distinct (map local_index visits)" and ne: "visits \<noteq> []"
    and l: "\<forall>sl\<in>set visits. length (rows sl) = length tids"
  shows "dict_get (merge_slices
            (foldl (\<lambda>d sl. store_rows (local_index sl) (zip tids (rows sl)) d) [] visits))
            (tids ! i) =
         Some (concat (map (\<lambda>sl. rows sl ! i) (by_index visits)))"
proof -
  let ?D = "foldl (\<lambda>d sl. store_rows (local_index sl) (zip tids (rows sl)) d) [] visits"
  let ?m = "map (\<lambda>sl. (local_index sl, rows sl ! i)) visits"
  have dd: "dict_default ?D (tids ! i) = ?m" using dt i di l by (rule foldl_store)
  have "?m \<noteq> []" using ne by simp
  then have "dict_get ?D (tids ! i) = Some ?m"
    using dd by (cases "dict_get ?D (tids ! i)") (simp_all add: dict_default_def)
  then show ?thesis
    using concat_slices_pairs [OF di, of "\<lambda>sl. rows sl ! i"] by (simp add: merge_slices_get)
qed



subsection \<open>The ring\<close>

lemma calc_zchi2_lengths:
  assumes r: "calc_zchi2 np_solve cp_solve tids targets t progress use_gpu = Inr ((z, c, p), q)"
  shows "length z = length tids \<and> length c = length tids \<and> length p = length tids"
proof (cases "tids = []")
  case True
  then show ?thesis
    using r by (auto simp: calc_zchi2_def calc_zchi2_v3_def Let_def split: if_splits)
next
  case False
  then have "0 < length tids" by simp
  from calc_zchi2_v3_row [OF r [unfolded calc_zchi2_def] this]
  have "0 < length targets" by simp
  let ?body = "calc_zchi2_v3_target np_solve cp_solve t (v3_tdata t use_gpu) use_gpu"
  have u: "calc_zchi2_v3 np_solve cp_solve tids targets t progress use_gpu =
      (if use_gpu \<and> local_data (local t) = [] then Inl IndexError
       else case target_loop ?body targets [0..<length tids] progress of
              Inl e \<Rightarrow> Inl e
            | Inr (rows, progress') \<Rightarrow>
                Inr ((map fst rows, map (\<lambda>r. fst (snd r)) rows, map (\<lambda>r. snd (snd r)) rows),
                     progress'))"
    by (simp add: calc_zchi2_v3_def v3_tdata_def Let_def)
  show ?thesis
  proof (cases "target_loop ?body targets [0..<length tids] progress")
    case (Inl e)
    then show ?thesis using r u by (simp add: calc_zchi2_def split: if_splits)
  next
    case (Inr res)
    obtain rows q0 where res: "res = (rows, q0)" by (cases res)
    from target_loop_Inr [OF Inr [unfolded res]] have "length rows = length tids" by simp
    moreover have "z = map fst rows" "c = map (\<lambda>r. fst (snd r)) rows" "p = map (\<lambda>r. snd (snd r)) rows"
      using r u Inr res by (simp_all add: calc_zchi2_def split: if_splits)
    ultimately show ?thesis by simp
  qed
qed

lemma slice_rows_lengths:
  assumes "calc_zchi2 np_solve cp_solve tids targets (t\<lparr>local := sl\<rparr>) None use_gpu = Inr (r, q)"
  shows "length (fst (slice_rows np_solve cp_solve tids targets t use_gpu sl)) = length tids"
    and "length (fst (snd (slice_rows np_solve cp_solve tids targets t use_gpu sl))) = length tids"
    and "length (snd (snd (slice_rows np_solve cp_solve tids targets t use_gpu sl))) = length tids"
proof -
  obtain z c p where r: "r = (z, c, p)" by (cases r)
  from calc_zchi2_lengths [OF assms [unfolded r]]
  have "length z = length tids \<and> length c = length tids \<and> length p = length tids" .
  then show "length (fst (slice_rows np_solve cp_solve tids targets t use_gpu sl)) = length tids"
    and "length (fst (snd (slice_rows np_solve cp_solve tids targets t use_gpu sl))) = length tids"
    and "length (snd (snd (slice_rows np_solve cp_solve tids targets t use_gpu sl))) = length tids"
    using assms r by (simp_all add: slice_rows_def)
qed

lemma ring_loop_foldl:
  assumes "\<forall>sl\<in>set visits. \<exists>r q.
             calc_zchi2 np_solve cp_solve tids targets (t\<lparr>local := sl\<rparr>) None use_gpu = Inr (r, q)"
  shows "ring_loop np_solve cp_solve tids targets t use_gpu visits (z, c, p) =
         Inr (foldl (\<lambda>d sl. store_rows (local_index sl)
                       (zip tids (fst (slice_rows np_solve cp_solve tids targets t use_gpu sl))) d)
                    z visits,
              foldl (\<lambda>d sl. store_rows (local_index sl)
                       (zip tids (fst (snd (slice_rows np_solve cp_solve tids targets t use_gpu sl)))) d)
                    c visits,
              foldl (\<lambda>d sl. store_rows (local_index sl)
                       (zip tids (snd (snd (slice_rows np_solve cp_solve tids targets t use_gpu sl)))) d)
                    p visits)"
  using assms
proof (induction visits arbitrary: z c p)
  case Nil
  then show ?case by simp
next
  case (Cons sl visits)
  from Cons.prems obtain r q where
    r: "calc_zchi2 np_solve cp_solve tids targets (t\<lparr>local := sl\<rparr>) None use_gpu = Inr (r, q)"
    by auto
  obtain tz tc tp where rr: "r = (tz, tc, tp)" by (cases r)
  have s: "slice_rows np_solve cp_solve tids targets t use_gpu sl = (tz, tc, tp)"
    using r rr by (simp add: slice_rows_def)
  have rest: "\<forall>sl\<in>set visits. \<exists>r q.
             calc_zchi2 np_solve cp_solve tids targets (t\<lparr>local := sl\<rparr>) None use_gpu = Inr (r, q)"
    using Cons.prems by simp
  show ?case using r rr s Cons.IH [OF rest] by simp
qed

lemma zip_concat_map:
  "\<forall>s\<in>set S. length (f s) = length (g s) \<Longrightarrow>
     zip (concat (map f S)) (concat (map g S)) = concat (map (\<lambda>s. zip (f s) (g s)) S)"
  by (induction S) simp_all

subsection \<open>The pool\<close>

lemma assign_rows_append: "assign_rows (xs @ ys) d = assign_rows ys (assign_rows xs d)"
  by (induction xs arbitrary: d) auto

lemma assign_rows_get:
  assumes "distinct (map fst trs)"
  shows "dict_get (assign_rows trs d) tid =
         (case map_of trs tid of None \<Rightarrow> dict_get d tid | Some r \<Rightarrow> Some r)"
  using assms
proof (induction trs arbitrary: d)
  case Nil
  then show ?case by simp
next
  case (Cons tr trs)
  obtain t r where tr: "tr = (t, r)" by (cases tr)
  have d: "distinct (map fst trs)" and nt: "t \<notin> fst ` set trs" using Cons.prems tr by auto
  have n: "map_of trs t = None" using nt by (simp add: map_of_eq_None_iff)
  show ?case using Cons.IH [OF d, of "dict_set t r d"] tr n
    by (simp add: dict_get_set split: option.splits)
qed

lemma pool_collect_pairs:
  assumes "list_all (\<lambda>r. fst r < length mpdist \<and>
                    length (fst (snd r)) = length (mpdist ! fst r) \<and>
                    length (fst (snd (snd r))) = length (mpdist ! fst r) \<and>
                    length (snd (snd (snd r))) = length (mpdist ! fst r)) received"
  shows "pool_collect mpdist received (z, c, p) =
         Inr (assign_rows (pool_pairs mpdist fst received) z,
              assign_rows (pool_pairs mpdist (\<lambda>x. fst (snd x)) received) c,
              assign_rows (pool_pairs mpdist (\<lambda>x. snd (snd x)) received) p)"
  using assms
proof (induction received arbitrary: z c p)
  case Nil
  then show ?case by (simp add: pool_pairs_def)
next
  case (Cons r received)
  obtain indx tz tc tp where r: "r = (indx, tz, tc, tp)" by (cases r)
  have rest: "list_all (\<lambda>r. fst r < length mpdist \<and>
                    length (fst (snd r)) = length (mpdist ! fst r) \<and>
                    length (fst (snd (snd r))) = length (mpdist ! fst r) \<and>
                    length (snd (snd (snd r))) = length (mpdist ! fst r)) received"
    using Cons.prems by simp
  have h: "indx < length mpdist" "length tz = length (mpdist ! indx)"
    "length tc = length (mpdist ! indx)" "length tp = length (mpdist ! indx)"
    using Cons.prems r by simp_all
  have p: "pool_pairs mpdist sel (r # received) =
           zip (mpdist ! indx) (sel (tz, tc, tp)) @ pool_pairs mpdist sel received" for sel
    by (simp add: pool_pairs_def r)
  show ?case
    unfolding p assign_rows_append using h Cons.IH [OF rest] by (simp add: r)
qed

lemma pool_pairs_keys:
  assumes "list_all (\<lambda>r. length (sel (snd r)) = length (mpdist ! fst r)) received"
  shows "map fst (pool_pairs mpdist sel received) = concat (map (\<lambda>r. mpdist ! fst r) received)"
  using assms by (induction received) (simp_all add: pool_pairs_def)

lemma pool_pairs_member:
  assumes "k < length received" and "j < length (mpdist ! fst (received ! k))"
    and "length (sel (snd (received ! k))) = length (mpdist ! fst (received ! k))"
  shows "(mpdist ! fst (received ! k) ! j, sel (snd (received ! k)) ! j) \<in>
           set (pool_pairs mpdist sel received)"
proof -
  let ?r = "received ! k"
  have "?r \<in> set received" using assms(1) by simp
  moreover have "(mpdist ! fst ?r ! j, sel (snd ?r) ! j) \<in> set (zip (mpdist ! fst ?r) (sel (snd ?r)))"
    using assms(2,3) by (auto simp: set_zip)
  ultimately show ?thesis unfolding pool_pairs_def by auto
qed

lemma ring_merge:
  assumes ne: "tids \<noteq> []" and dt: "distinct tids" and i: "i < length tids"
    and vne: "visits \<noteq> []" and di: "distinct (map local_index visits)"
    and ok: "\<forall>sl\<in>set visits. \<exists>r q.
               calc_zchi2 np_solve cp_solve tids targets (t\<lparr>local := sl\<rparr>) None use_gpu = Inr (r, q)"
  shows "\<exists>Z C P.
           scan_ring np_solve cp_solve tids targets t use_gpu visits = Inr (Z, C, P) \<and>
           dict_get Z (tids ! i) =
             Some (concat (map (\<lambda>sl. fst (slice_rows np_solve cp_solve tids targets t use_gpu sl) ! i)
                               (by_index visits))) \<and>
           dict_get C (tids ! i) =
             Some (concat (map (\<lambda>sl. fst (snd (slice_rows np_solve cp_solve tids targets t use_gpu sl)) ! i)
                               (by_index visits))) \<and>
           dict_get P (tids ! i) =
             Some (concat (map (\<lambda>sl. snd (snd (slice_rows np_solve cp_solve tids targets t use_gpu sl)) ! i)
                               (by_index visits)))"
proof -
  let ?rows = "slice_rows np_solve cp_solve tids targets t use_gpu"
  let ?DZ = "foldl (\<lambda>d sl. store_rows (local_index sl) (zip tids (fst (?rows sl))) d) [] visits"
  let ?DC = "foldl (\<lambda>d sl. store_rows (local_index sl) (zip tids (fst (snd (?rows sl)))) d) [] visits"
  let ?DP = "foldl (\<lambda>d sl. store_rows (local_index sl) (zip tids (snd (snd (?rows sl)))) d) [] visits"
  have rl: "ring_loop np_solve cp_solve tids targets t use_gpu visits ([], [], []) = Inr (?DZ, ?DC, ?DP)"
    using ok by (rule ring_loop_foldl)
  have sr: "scan_ring np_solve cp_solve tids targets t use_gpu visits =
            Inr (merge_slices ?DZ, merge_slices ?DC, merge_slices ?DP)"
    using rl ne by (simp add: scan_ring_def)
  have lz: "\<forall>sl\<in>set visits. length (fst (?rows sl)) = length tids"
    using ok slice_rows_lengths(1) by blast
  have lc: "\<forall>sl\<in>set visits. length (fst (snd (?rows sl))) = length tids"
    using ok slice_rows_lengths(2) by blast
  have lp: "\<forall>sl\<in>set visits. length (snd (snd (?rows sl))) = length tids"
    using ok slice_rows_lengths(3) by blast
  from merged_ring [OF dt i di vne lz] merged_ring [OF dt i di vne lc] merged_ring [OF dt i di vne lp] sr
  show ?thesis by blast
qed

lemma pool_merge:
  assumes fits: "pool_fits mpdist received" and k: "k < length received"
    and j: "j < length (mpdist ! fst (received ! k))"
  shows "\<exists>Z C P.
           pool_collect mpdist received ([], [], []) = Inr (Z, C, P) \<and>
           dict_get Z (mpdist ! fst (received ! k) ! j) = Some (fst (snd (received ! k)) ! j) \<and>
           dict_get C (mpdist ! fst (received ! k) ! j) = Some (fst (snd (snd (received ! k))) ! j) \<and>
           dict_get P (mpdist ! fst (received ! k) ! j) = Some (snd (snd (snd (received ! k))) ! j)"
proof -
  let ?tid = "mpdist ! fst (received ! k) ! j"
  have all: "list_all (\<lambda>r. fst r < length mpdist \<and>
                    length (fst (snd r)) = length (mpdist ! fst r) \<and>
                    length (fst (snd (snd r))) = length (mpdist ! fst r) \<and>
                    length (snd (snd (snd r))) = length (mpdist ! fst r)) received"
    and dis: "distinct (concat (map (\<lambda>r. mpdist ! fst r) received))"
    using fits by (simp_all add: pool_fits_def)
  have pc: "pool_collect mpdist received ([], [], []) =
         Inr (assign_rows (pool_pairs mpdist fst received) [],
              assign_rows (pool_pairs mpdist (\<lambda>x. fst (snd x)) received) [],
              assign_rows (pool_pairs mpdist (\<lambda>x. snd (snd x)) received) [])"
    using all by (rule pool_collect_pairs)
  have get: "dict_get (assign_rows (pool_pairs mpdist sel received) []) ?tid
               = Some (sel (snd (received ! k)) ! j)"
    if len: "list_all (\<lambda>r. length (sel (snd r)) = length (mpdist ! fst r)) received"
    for sel :: "vec list \<times> vec list list \<times> vec list \<Rightarrow> 'r list"
  proof -
    have keys: "distinct (map fst (pool_pairs mpdist sel received))"
      using pool_pairs_keys [OF len] dis by simp
    have lk: "length (sel (snd (received ! k))) = length (mpdist ! fst (received ! k))"
      using len k by (simp add: list_all_length)
    have "(?tid, sel (snd (received ! k)) ! j) \<in> set (pool_pairs mpdist sel received)"
      using k j lk by (rule pool_pairs_member)
    then have "map_of (pool_pairs mpdist sel received) ?tid = Some (sel (snd (received ! k)) ! j)"
      using keys by simp
    then show ?thesis using assign_rows_get [OF keys] by simp
  qed
  have "list_all (\<lambda>r. length (fst (snd r)) = length (mpdist ! fst r)) received"
    "list_all (\<lambda>r. length (fst (snd (snd r))) = length (mpdist ! fst r)) received"
    "list_all (\<lambda>r. length (snd (snd (snd r))) = length (mpdist ! fst r)) received"
    using all by (simp_all add: list_all_iff)
  from get [of fst, OF this(1)] get [of "\<lambda>x. fst (snd x)", OF this(2)]
    get [of "\<lambda>x. snd (snd x)", OF this(3)] pc
  show ?thesis by simp
qed

text \<open>
  Claim C9. In the ring mode, when the scan of every visited slice returns and the
  slices have distinct indices, the arrays returned for a target are the
  concatenations of that target's per-slice chi-squared, coefficient and penalty
  arrays in ascending order of the slice index, whatever the order of the visits, and
  the record holds the template's full redshift grid. When the slices, in ascending
  order of their index, make up the full grid and every per-slice array has one entry
  per redshift of its slice, pairing the grid with each of the three arrays gives the
  pairs of the slices one after the other: the four sequences are ordered alike. In
  the pool mode nothing is concatenated: the record of a target holds the rows of the
  process that had the target, as they arrived.
\<close>

theorem merge_order:
  "(tids \<noteq> [] \<and> distinct tids \<and> i < length tids \<and> visits \<noteq> [] \<and>
    distinct (map local_index visits) \<and>
    (\<forall>sl\<in>set visits. \<exists>r q.
       calc_zchi2 np_solve cp_solve tids targets (t\<lparr>local := sl\<rparr>) None use_gpu = Inr (r, q)) \<longrightarrow>
    (\<exists>Z C P fr.
       scan_ring np_solve cp_solve tids targets t use_gpu visits = Inr (Z, C, P) \<and>
       result_of t (Z, C, P) (tids ! i) = Inr (tids ! i, fr) \<and>
       r_redshifts fr = redshifts (template t) \<and>
       r_zchi2 fr =
         concat (map (\<lambda>sl. fst (slice_rows np_solve cp_solve tids targets t use_gpu sl) ! i)
                     (by_index visits)) \<and>
       r_zcoeff fr =
         concat (map (\<lambda>sl. fst (snd (slice_rows np_solve cp_solve tids targets t use_gpu sl)) ! i)
                     (by_index visits)) \<and>
       r_penalty fr =
         concat (map (\<lambda>sl. snd (snd (slice_rows np_solve cp_solve tids targets t use_gpu sl)) ! i)
                     (by_index visits)) \<and>
       (concat (map local_redshifts (by_index visits)) = redshifts (template t) \<and>
        (\<forall>sl\<in>set visits.
           length (fst (slice_rows np_solve cp_solve tids targets t use_gpu sl) ! i)
             = length (local_redshifts sl) \<and>
           length (fst (snd (slice_rows np_solve cp_solve tids targets t use_gpu sl)) ! i)
             = length (local_redshifts sl) \<and>
           length (snd (snd (slice_rows np_solve cp_solve tids targets t use_gpu sl)) ! i)
             = length (local_redshifts sl)) \<longrightarrow>
        zip (r_redshifts fr) (r_zchi2 fr) =
          concat (map (\<lambda>sl. zip (local_redshifts sl)
                               (fst (slice_rows np_solve cp_solve tids targets t use_gpu sl) ! i))
                      (by_index visits)) \<and>
        zip (r_redshifts fr) (r_zcoeff fr) =
          concat (map (\<lambda>sl. zip (local_redshifts sl)
                               (fst (snd (slice_rows np_solve cp_solve tids targets t use_gpu sl)) ! i))
                      (by_index visits)) \<and>
        zip (r_redshifts fr) (r_penalty fr) =
          concat (map (\<lambda>sl. zip (local_redshifts sl)
                               (snd (snd (slice_rows np_solve cp_solve tids targets t use_gpu sl)) ! i))
                      (by_index visits))))) \<and>
   (pool_fits mpdist received \<and> k < length received \<and>
    j < length (mpdist ! fst (received ! k)) \<longrightarrow>
    (\<exists>Z C P.
       pool_collect mpdist received ([], [], []) = Inr (Z, C, P) \<and>
       result_of t (Z, C, P) (mpdist ! fst (received ! k) ! j) =
         Inr (mpdist ! fst (received ! k) ! j,
              \<lparr>r_redshifts = redshifts (template t),
               r_zchi2 = fst (snd (received ! k)) ! j,
               r_penalty = snd (snd (snd (received ! k))) ! j,
               r_zcoeff = fst (snd (snd (received ! k))) ! j\<rparr>)))"
proof (intro conjI impI)
  let ?rows = "slice_rows np_solve cp_solve tids targets t use_gpu"
  assume a: "tids \<noteq> [] \<and> distinct tids \<and> i < length tids \<and> visits \<noteq> [] \<and>
    distinct (map local_index visits) \<and>
    (\<forall>sl\<in>set visits. \<exists>r q.
       calc_zchi2 np_solve cp_solve tids targets (t\<lparr>local := sl\<rparr>) None use_gpu = Inr (r, q))"
  then have ne: "tids \<noteq> []" and dt: "distinct tids" and i: "i < length tids"
    and vne: "visits \<noteq> []" and di: "distinct (map local_index visits)"
    and ok: "\<forall>sl\<in>set visits. \<exists>r q.
       calc_zchi2 np_solve cp_solve tids targets (t\<lparr>local := sl\<rparr>) None use_gpu = Inr (r, q)"
    by simp_all
  from ring_merge [OF ne dt i vne di ok] obtain Z C P where
    sr: "scan_ring np_solve cp_solve tids targets t use_gpu visits = Inr (Z, C, P)"
    and z: "dict_get Z (tids ! i) = Some (concat (map (\<lambda>sl. fst (?rows sl) ! i) (by_index visits)))"
    and c: "dict_get C (tids ! i) = Some (concat (map (\<lambda>sl. fst (snd (?rows sl)) ! i) (by_index visits)))"
    and p: "dict_get P (tids ! i) = Some (concat (map (\<lambda>sl. snd (snd (?rows sl)) ! i) (by_index visits)))"
    by blast
  let ?fr = "\<lparr>r_redshifts = redshifts (template t),
              r_zchi2 = concat (map (\<lambda>sl. fst (?rows sl) ! i) (by_index visits)),
              r_penalty = concat (map (\<lambda>sl. snd (snd (?rows sl)) ! i) (by_index visits)),
              r_zcoeff = concat (map (\<lambda>sl. fst (snd (?rows sl)) ! i) (by_index visits))\<rparr>"
  have ro: "result_of t (Z, C, P) (tids ! i) = Inr (tids ! i, ?fr)"
    using z c p by (simp add: result_of_def)
  have al: "zip (r_redshifts ?fr) (r_zchi2 ?fr) =
          concat (map (\<lambda>sl. zip (local_redshifts sl) (fst (?rows sl) ! i)) (by_index visits)) \<and>
        zip (r_redshifts ?fr) (r_zcoeff ?fr) =
          concat (map (\<lambda>sl. zip (local_redshifts sl) (fst (snd (?rows sl)) ! i)) (by_index visits)) \<and>
        zip (r_redshifts ?fr) (r_penalty ?fr) =
          concat (map (\<lambda>sl. zip (local_redshifts sl) (snd (snd (?rows sl)) ! i)) (by_index visits))"
    if g: "concat (map local_redshifts (by_index visits)) = redshifts (template t)"
      and l: "\<forall>sl\<in>set visits.
           length (fst (?rows sl) ! i) = length (local_redshifts sl) \<and>
           length (fst (snd (?rows sl)) ! i) = length (local_redshifts sl) \<and>
           length (snd (snd (?rows sl)) ! i) = length (local_redshifts sl)"
  proof -
    have s: "set (by_index visits) = set visits" by (simp add: by_index_def)
    have lz: "\<forall>sl\<in>set (by_index visits). length (local_redshifts sl) = length (fst (?rows sl) ! i)"
      and lc: "\<forall>sl\<in>set (by_index visits). length (local_redshifts sl) = length (fst (snd (?rows sl)) ! i)"
      and lp: "\<forall>sl\<in>set (by_index visits). length (local_redshifts sl) = length (snd (snd (?rows sl)) ! i)"
      using l s by simp_all
    show ?thesis
      using zip_concat_map [OF lz] zip_concat_map [OF lc] zip_concat_map [OF lp]
      by (simp add: g [symmetric])
  qed
  show "\<exists>Z C P fr.
       scan_ring np_solve cp_solve tids targets t use_gpu visits = Inr (Z, C, P) \<and>
       result_of t (Z, C, P) (tids ! i) = Inr (tids ! i, fr) \<and>
       r_redshifts fr = redshifts (template t) \<and>
       r_zchi2 fr = concat (map (\<lambda>sl. fst (?rows sl) ! i) (by_index visits)) \<and>
       r_zcoeff fr = concat (map (\<lambda>sl. fst (snd (?rows sl)) ! i) (by_index visits)) \<and>
       r_penalty fr = concat (map (\<lambda>sl. snd (snd (?rows sl)) ! i) (by_index visits)) \<and>
       (concat (map local_redshifts (by_index visits)) = redshifts (template t) \<and>
        (\<forall>sl\<in>set visits.
           length (fst (?rows sl) ! i) = length (local_redshifts sl) \<and>
           length (fst (snd (?rows sl)) ! i) = length (local_redshifts sl) \<and>
           length (snd (snd (?rows sl)) ! i) = length (local_redshifts sl)) \<longrightarrow>
        zip (r_redshifts fr) (r_zchi2 fr) =
          concat (map (\<lambda>sl. zip (local_redshifts sl) (fst (?rows sl) ! i)) (by_index visits)) \<and>
        zip (r_redshifts fr) (r_zcoeff fr) =
          concat (map (\<lambda>sl. zip (local_redshifts sl) (fst (snd (?rows sl)) ! i)) (by_index visits)) \<and>
        zip (r_redshifts fr) (r_penalty fr) =
          concat (map (\<lambda>sl. zip (local_redshifts sl) (snd (snd (?rows sl)) ! i)) (by_index visits)))"
    apply (rule exI [of _ Z], rule exI [of _ C], rule exI [of _ P], rule exI [of _ ?fr])
    using sr ro al by simp
next
  assume a: "pool_fits mpdist received \<and> k < length received \<and>
    j < length (mpdist ! fst (received ! k))"
  then have fits: "pool_fits mpdist received" and k: "k < length received"
    and j: "j < length (mpdist ! fst (received ! k))" by simp_all
  from pool_merge [OF fits k j] obtain Z C P where
    pc: "pool_collect mpdist received ([], [], []) = Inr (Z, C, P)"
    and z: "dict_get Z (mpdist ! fst (received ! k) ! j) = Some (fst (snd (received ! k)) ! j)"
    and c: "dict_get C (mpdist ! fst (received ! k) ! j) = Some (fst (snd (snd (received ! k))) ! j)"
    and p: "dict_get P (mpdist ! fst (received ! k) ! j) = Some (snd (snd (snd (received ! k))) ! j)"
    by blast
  have "result_of t (Z, C, P) (mpdist ! fst (received ! k) ! j) =
         Inr (mpdist ! fst (received ! k) ! j,
              \<lparr>r_redshifts = redshifts (template t),
               r_zchi2 = fst (snd (received ! k)) ! j,
               r_penalty = snd (snd (snd (received ! k))) ! j,
               r_zcoeff = fst (snd (snd (received ! k))) ! j\<rparr>)"
    using z c p by (simp add: result_of_def)
  with pc show "\<exists>Z C P.
       pool_collect mpdist received ([], [], []) = Inr (Z, C, P) \<and>
       result_of t (Z, C, P) (mpdist ! fst (received ! k) ! j) =
         Inr (mpdist ! fst (received ! k) ! j,
              \<lparr>r_redshifts = redshifts (template t),
               r_zchi2 = fst (snd (received ! k)) ! j,
               r_penalty = snd (snd (snd (received ! k))) ! j,
               r_zcoeff = fst (snd (snd (received ! k))) ! j\<rparr>)"
    by blast
qed



lemma ex_ring_calls:
  "calc_zchi2 np_linalg_solve cp_linalg_solve [7] [ex_target]
     ((ex_dtemplate ''QSO'')\<lparr>local := ex_slice0\<rparr>) None False
     = Inr (([[sentinel]], [[[0]]], [[0]]), None)"
  "calc_zchi2 np_linalg_solve cp_linalg_solve [7] [ex_target]
     ((ex_dtemplate ''QSO'')\<lparr>local := ex_slice1\<rparr>) None False
     = Inr (([[0]], [[[1 / 2]]], [[0]]), None)"
  by code_simp+

lemma ex_slice_rows:
  "slice_rows np_linalg_solve cp_linalg_solve [7] [ex_target] (ex_dtemplate ''QSO'') False ex_slice0
     = ([[sentinel]], [[[0]]], [[0]])"
  "slice_rows np_linalg_solve cp_linalg_solve [7] [ex_target] (ex_dtemplate ''QSO'') False ex_slice1
     = ([[0]], [[[1 / 2]]], [[0]])"
  by (simp_all add: slice_rows_def ex_ring_calls)

lemma ex_by_index: "by_index [ex_slice1, ex_slice0] = [ex_slice0, ex_slice1]"
  by (simp add: by_index_def ex_slice0_def ex_slice1_def)

lemma ex_pool_fits: "pool_fits [[7], [8]] ex_received"
  by code_simp

theorem merge_order_witness:
  "(\<exists>Z C P fr.
      scan_ring np_linalg_solve cp_linalg_solve [7] [ex_target] (ex_dtemplate ''QSO'') False
        [ex_slice1, ex_slice0] = Inr (Z, C, P) \<and>
      result_of (ex_dtemplate ''QSO'') (Z, C, P) 7 = Inr (7, fr) \<and>
      r_redshifts fr = [0, 1] \<and> r_zchi2 fr = [sentinel, 0] \<and>
      r_zcoeff fr = [[0], [1 / 2]] \<and> r_penalty fr = [0, 0] \<and>
      zip (r_redshifts fr) (r_zchi2 fr) = [(0, sentinel), (1, 0)]) \<and>
   (\<exists>Z C P.
      pool_collect [[7], [8]] ex_received ([], [], []) = Inr (Z, C, P) \<and>
      result_of (ex_dtemplate ''QSO'') (Z, C, P) 8 =
        Inr (8, \<lparr>r_redshifts = [0, 1], r_zchi2 = [5, 6], r_penalty = [0, 0],
                 r_zcoeff = [[1], [2]]\<rparr>))"
proof -
  let ?t = "ex_dtemplate ''QSO''"
  let ?visits = "[ex_slice1, ex_slice0]"
  have g: "redshifts (template ?t) = [0, 1]" by (simp add: ex_dtemplate_def ex_template_def)
  have hyp: "[7::nat] \<noteq> [] \<and> distinct [7::nat] \<and> (0::nat) < length [7::nat] \<and> ?visits \<noteq> [] \<and>
    distinct (map local_index ?visits) \<and>
    (\<forall>sl\<in>set ?visits. \<exists>r q.
       calc_zchi2 np_linalg_solve cp_linalg_solve [7] [ex_target] (?t\<lparr>local := sl\<rparr>) None False
         = Inr (r, q))"
    using ex_ring_calls by (simp add: ex_slice0_def ex_slice1_def)
  have phyp: "pool_fits [[7], [8]] ex_received \<and> (0::nat) < length ex_received \<and>
    (0::nat) < length ([[7], [8]] ! fst (ex_received ! 0))"
    using ex_pool_fits by (simp add: ex_received_def)
  note m = merge_order [of "[7]" 0 ?visits np_linalg_solve cp_linalg_solve "[ex_target]" ?t False
      "[[7], [8]]" ex_received 0 0]
  from m hyp obtain Z C P fr where
    sr: "scan_ring np_linalg_solve cp_linalg_solve [7] [ex_target] ?t False ?visits = Inr (Z, C, P)"
    and ro: "result_of ?t (Z, C, P) ([7] ! 0) = Inr ([7] ! 0, fr)"
    and rr: "r_redshifts fr = redshifts (template ?t)"
    and rz: "r_zchi2 fr = concat (map (\<lambda>sl. fst (slice_rows np_linalg_solve cp_linalg_solve [7]
                 [ex_target] ?t False sl) ! 0) (by_index ?visits))"
    and rc: "r_zcoeff fr = concat (map (\<lambda>sl. fst (snd (slice_rows np_linalg_solve cp_linalg_solve [7]
                 [ex_target] ?t False sl)) ! 0) (by_index ?visits))"
    and rp: "r_penalty fr = concat (map (\<lambda>sl. snd (snd (slice_rows np_linalg_solve cp_linalg_solve [7]
                 [ex_target] ?t False sl)) ! 0) (by_index ?visits))"
    by blast
  have z: "r_zchi2 fr = [sentinel, 0]" using rz by (simp add: ex_by_index ex_slice_rows)
  have c: "r_zcoeff fr = [[0], [1 / 2]]" using rc by (simp add: ex_by_index ex_slice_rows)
  have p: "r_penalty fr = [0, 0]" using rp by (simp add: ex_by_index ex_slice_rows)
  have ring: "\<exists>Z C P fr.
      scan_ring np_linalg_solve cp_linalg_solve [7] [ex_target] ?t False ?visits = Inr (Z, C, P) \<and>
      result_of ?t (Z, C, P) 7 = Inr (7, fr) \<and>
      r_redshifts fr = [0, 1] \<and> r_zchi2 fr = [sentinel, 0] \<and>
      r_zcoeff fr = [[0], [1 / 2]] \<and> r_penalty fr = [0, 0] \<and>
      zip (r_redshifts fr) (r_zchi2 fr) = [(0, sentinel), (1, 0)]"
    using sr ro rr z c p g by (intro exI [of _ Z] exI [of _ C] exI [of _ P] exI [of _ fr]) simp
  from m phyp obtain Z' C' P' where
    pc: "pool_collect [[7], [8]] ex_received ([], [], []) = Inr (Z', C', P')"
    and pr: "result_of ?t (Z', C', P') ([[7], [8]] ! fst (ex_received ! 0) ! 0) =
         Inr ([[7], [8]] ! fst (ex_received ! 0) ! 0,
              \<lparr>r_redshifts = redshifts (template ?t),
               r_zchi2 = fst (snd (ex_received ! 0)) ! 0,
               r_penalty = snd (snd (snd (ex_received ! 0))) ! 0,
               r_zcoeff = fst (snd (snd (ex_received ! 0))) ! 0\<rparr>)"
    by blast
  have pool: "\<exists>Z C P.
      pool_collect [[7], [8]] ex_received ([], [], []) = Inr (Z, C, P) \<and>
      result_of ?t (Z, C, P) 8 =
        Inr (8, \<lparr>r_redshifts = [0, 1], r_zchi2 = [5, 6], r_penalty = [0, 0],
                 r_zcoeff = [[1], [2]]\<rparr>)"
    using pc pr g by (intro exI [of _ Z'] exI [of _ C'] exI [of _ P']) (simp add: ex_received_def)
  from ring pool show ?thesis by blast
qed

end
